theory Spec2Isabelle
  imports Complex_Main
begin


section \<open>Numbers and vectors\<close>

text \<open>
  The simulation core of \<^verbatim>\<open>src/game/PlayerCar.tsx\<close> (component
  \<^verbatim>\<open>PlayerController\<close>), the track queries of \<^verbatim>\<open>trackPath.ts\<close> and the
  leaderboard handler of the relay server are embedded as HOL functions.  JavaScript
  numbers are modelled as mathematical reals: NaN and signed zero are outside the model,
  and so is rounding, except in the respawn countdown of the aerial targets, whose
  subtraction is rounded to double precision (\<open>fround\<close> below) because the frame in
  which the countdown reaches zero depends on it.  The one infinite value the code
  computes with, the initial
  \<^verbatim>\<open>minDist = Infinity\<close> of the nearest-sample scan, has a constructor of its own.
  \<^verbatim>\<open>THREE.Vector3\<close> is a triple of reals; every vector the code mutates in place is
  returned updated.
\<close>

datatype Vector3 = Vector3 (vx: real) (vy: real) (vz: real)

datatype jsnum = Num real | Infinity

fun num_less :: "jsnum \<Rightarrow> real \<Rightarrow> bool" where
  "num_less (Num a) b = (a < b)"
| "num_less Infinity b = False"

fun less_num :: "real \<Rightarrow> jsnum \<Rightarrow> bool" where
  "less_num a (Num b) = (a < b)"
| "less_num a Infinity = True"

fun Math_sqrt :: "jsnum \<Rightarrow> jsnum" where
  "Math_sqrt (Num a) = Num (sqrt a)"
| "Math_sqrt Infinity = Infinity"

subsection \<open>Rounding to double precision\<close>

text \<open>
  \<open>binade x\<close> is the exponent \<open>e\<close> with \<open>2\<^sup>e \<le> \<bar>x\<bar> < 2\<^sup>e\<^sup>+\<^sup>1\<close>, found by halving
  or doubling; \<open>fround x\<close> is the multiple of \<open>2\<^sup>e\<^sup>-\<^sup>5\<^sup>2\<close> nearest to \<open>x\<close>, the even one of
  two equally near: the binary64 number that IEEE 754 arithmetic returns for an exact
  result \<open>x\<close> in the normal range.  The exponent is not bounded, so overflow and gradual
  underflow are outside the model.
\<close>

function ilog_ge :: "real \<Rightarrow> int" where
  "ilog_ge x = (if 2 \<le> x then ilog_ge (x / 2) + 1 else 0)"
  by pat_completeness auto
termination
proof (relation "measure (\<lambda>x. nat \<lceil>x\<rceil>)")
  show "wf (measure (\<lambda>x. nat \<lceil>x\<rceil>))" by simp
next
  fix x :: real
  assume x: "2 \<le> x"
  have "x / 2 \<le> x - 1" using x by simp
  then have "\<lceil>x / 2\<rceil> \<le> \<lceil>x - 1\<rceil>" by (rule ceiling_mono)
  moreover have "0 < \<lceil>x\<rceil>" using x by simp
  ultimately show "(x / 2, x) \<in> measure (\<lambda>x. nat \<lceil>x\<rceil>)" by simp
qed

function ilog_lt :: "real \<Rightarrow> int" where
  "ilog_lt x = (if 0 < x \<and> x < 1 then ilog_lt (x * 2) - 1 else 0)"
  by pat_completeness auto
termination
proof (relation "measure (\<lambda>x. nat \<lceil>1 / x\<rceil>)")
  show "wf (measure (\<lambda>x. nat \<lceil>1 / x\<rceil>))" by simp
next
  fix x :: real
  assume x: "0 < x \<and> x < 1"
  define y where "y = 1 / x"
  have y: "1 < y" using x unfolding y_def by simp
  have e: "1 / (x * 2) = y / 2" unfolding y_def by simp
  have "\<lceil>y / 2\<rceil> < \<lceil>y\<rceil>"
  proof (cases "y \<le> 2")
    case True
    then have "\<lceil>y / 2\<rceil> \<le> 1" by (simp add: ceiling_le_iff)
    moreover have "1 < \<lceil>y\<rceil>" using y by (simp add: less_ceiling_iff)
    ultimately show ?thesis by linarith
  next
    case False
    then have "y / 2 \<le> y - 1" by simp
    then have "\<lceil>y / 2\<rceil> \<le> \<lceil>y - 1\<rceil>" by (rule ceiling_mono)
    then show ?thesis by simp
  qed
  moreover have "0 < \<lceil>y\<rceil>" using y by simp
  ultimately show "(x * 2, x) \<in> measure (\<lambda>x. nat \<lceil>1 / x\<rceil>)"
    unfolding in_measure e y_def [symmetric] by simp
qed

declare ilog_ge.simps [simp del] ilog_lt.simps [simp del]

definition binade :: "real \<Rightarrow> int" where
  "binade x = (if 1 \<le> \<bar>x\<bar> then ilog_ge \<bar>x\<bar> else ilog_lt \<bar>x\<bar>)"

definition roundTiesToEven :: "real \<Rightarrow> int" where
  "roundTiesToEven m =
     (let f = \<lfloor>m\<rfloor>;
          r = m - of_int f
      in if r < 1 / 2 then f
         else if 1 / 2 < r then f + 1
         else if even f then f else f + 1)"

definition fround :: "real \<Rightarrow> real" where
  "fround x =
     (if x = 0 then 0
      else (let ulp = 2 powi (binade x - 52)
            in of_int (roundTiesToEven (x / ulp)) * ulp))"

section \<open>Track queries (trackPath.ts)\<close>

text \<open>
  The repository holds two revisions of \<^verbatim>\<open>trackPath.ts\<close> that differ in their
  constants only (track width 18 or 16, 3 or 2 laps, 4 or 8 checkpoints, 500 or 1000
  samples) and in the control points of the spline.  The constants and the samples that
  \<^verbatim>\<open>THREE.CatmullRomCurve3.getPointAt\<close> produces are the fields of a record, so
  every theorem holds for both revisions.
\<close>

record track =
  TRACK_WIDTH :: real
  TOTAL_LAPS :: nat
  NUM_CHECKPOINTS :: nat
  TRACK_SAMPLES :: nat
  sampledPoints :: "Vector3 list"

text \<open>The constants of \<^verbatim>\<open>src/game/trackPath.ts\<close>, over given samples.\<close>

definition trackPath :: "Vector3 list \<Rightarrow> track" where
  "trackPath samples =
     \<lparr>TRACK_WIDTH = 18, TOTAL_LAPS = 3, NUM_CHECKPOINTS = 4, TRACK_SAMPLES = 500,
      sampledPoints = samples\<rparr>"

record NearestInfo =
  n_point :: "Vector3 option"
  n_t :: real
  n_distance :: jsnum

text \<open>
  The scan of \<^verbatim>\<open>getNearestTrackInfo\<close>: \<open>i\<close> is the loop index, and a sample
  replaces the current best only when it is strictly closer.
\<close>

fun nearest_scan :: "Vector3 \<Rightarrow> Vector3 list \<Rightarrow> nat \<Rightarrow> jsnum \<Rightarrow> nat \<Rightarrow> jsnum \<times> nat" where
  "nearest_scan pos [] i minDist nearestIdx = (minDist, nearestIdx)"
| "nearest_scan pos (p # ps) i minDist nearestIdx =
     (let dx = vx pos - vx p;
          dz = vz pos - vz p;
          d = dx * dx + dz * dz
      in if less_num d minDist then nearest_scan pos ps (Suc i) (Num d) i
         else nearest_scan pos ps (Suc i) minDist nearestIdx)"

definition nth_opt :: "'a list \<Rightarrow> nat \<Rightarrow> 'a option" where
  "nth_opt xs i = (if i < length xs then Some (xs ! i) else None)"

definition getNearestTrackInfo :: "track \<Rightarrow> Vector3 \<Rightarrow> NearestInfo" where
  "getNearestTrackInfo tp pos =
     (let (minDist, nearestIdx) = nearest_scan pos (sampledPoints tp) 0 Infinity 0
      in \<lparr>n_point = nth_opt (sampledPoints tp) nearestIdx,
          n_t = real nearestIdx / real (TRACK_SAMPLES tp),
          n_distance = Math_sqrt minDist\<rparr>)"

definition isOnTrack :: "track \<Rightarrow> Vector3 \<Rightarrow> bool" where
  "isOnTrack tp pos = num_less (n_distance (getNearestTrackInfo tp pos)) (TRACK_WIDTH tp / 2)"

text \<open>
  \<^verbatim>\<open>getTrackElevation\<close> exists in the later revision only.  Its read of
  \<^verbatim>\<open>info.point.y\<close> happens only below a finite distance, that is with at least one
  sample, so the missing point of an empty sample list is never dereferenced.
\<close>

definition getTrackElevation :: "track \<Rightarrow> Vector3 \<Rightarrow> real" where
  "getTrackElevation tp pos =
     (let info = getNearestTrackInfo tp pos
      in if num_less (n_distance info) (TRACK_WIDTH tp)
         then (case n_point info of Some p \<Rightarrow> vy p | None \<Rightarrow> 0)
         else 0)"

definition getCheckpointTs :: "track \<Rightarrow> real list" where
  "getCheckpointTs tp =
     map (\<lambda>i. (real i + 1) / (real (NUM_CHECKPOINTS tp) + 1)) [0..<NUM_CHECKPOINTS tp]"

section \<open>Lap and checkpoint timer\<close>

text \<open>
  The \<^verbatim>\<open>race\<close> ref of the controller.  \<^verbatim>\<open>checkpoints\<close> is a JavaScript array of
  booleans: a slot is \<open>Some b\<close>, or \<open>None\<close> for a hole.  A read past the end yields
  \<^verbatim>\<open>undefined\<close>, a write past the end extends the array with holes, and
  \<^verbatim>\<open>every\<close> skips holes.
\<close>

record RaceState =
  r_active :: bool
  r_lap :: nat
  r_lapStart :: real
  r_raceStart :: real
  r_bestLap :: "real option"
  r_checkpoints :: "bool option list"
  r_started :: bool
  r_lastT :: real
  r_finished :: bool

datatype event = LapComplete real | RaceFinish "real option"

definition js_get :: "bool option list \<Rightarrow> nat \<Rightarrow> bool option" where
  "js_get xs i = (if i < length xs then xs ! i else None)"

definition js_set :: "bool option list \<Rightarrow> nat \<Rightarrow> bool \<Rightarrow> bool option list" where
  "js_set xs i v =
     (if i < length xs then xs[i := Some v]
      else xs @ replicate (i - length xs) None @ [Some v])"

definition every_Boolean :: "bool option list \<Rightarrow> bool" where
  "every_Boolean xs = list_all (\<lambda>c. c \<noteq> Some False) xs"

text \<open>The loop over \<^verbatim>\<open>cpTs\<close> in the lap tracker, from index \<open>i\<close> on.\<close>

fun mark_checkpoints ::
  "real list \<Rightarrow> nat \<Rightarrow> real \<Rightarrow> real \<Rightarrow> bool option list \<Rightarrow> bool option list" where
  "mark_checkpoints [] i prevT currT cps = cps"
| "mark_checkpoints (c # cs) i prevT currT cps =
     mark_checkpoints cs (Suc i) prevT currT
       (if js_get cps i \<noteq> Some True \<and> prevT < c \<and> currT \<ge> c then js_set cps i True else cps)"

text \<open>
  The record that \<^verbatim>\<open>tickWalking\<close> stores when the player enters a car at
  \<^verbatim>\<open>performance.now() = now\<close>.
\<close>

definition newRace :: "track \<Rightarrow> real \<Rightarrow> RaceState" where
  "newRace tp now =
     \<lparr>r_active = True, r_lap = 0, r_lapStart = now, r_raceStart = now, r_bestLap = None,
      r_checkpoints = map (\<lambda>_. Some False) (getCheckpointTs tp),
      r_started = False, r_lastT = 0, r_finished = False\<rparr>"

text \<open>
  The body of the lap-tracking block of \<^verbatim>\<open>tickDriving\<close> (inside the distance gate):
  \<open>currT\<close> is \<^verbatim>\<open>nearest.t\<close>, \<open>now\<close> what \<^verbatim>\<open>performance.now()\<close> returns on a
  completion.  The callbacks fired are returned in order.
\<close>

definition lapComplete :: "track \<Rightarrow> real \<Rightarrow> RaceState \<Rightarrow> RaceState \<times> event list" where
  "lapComplete tp now r =
     (let lapTime = now - r_lapStart r;
          lap = r_lap r + 1;
          best = (case r_bestLap r of
                    None \<Rightarrow> Some lapTime
                  | Some b \<Rightarrow> if lapTime < b then Some lapTime else Some b);
          fin = (lap \<ge> TOTAL_LAPS tp)
      in (r\<lparr>r_lap := lap, r_bestLap := best,
            r_finished := (if fin then True else r_finished r),
            r_lapStart := now,
            r_checkpoints := map (\<lambda>_. Some False) (getCheckpointTs tp)\<rparr>,
          LapComplete lapTime # (if fin then [RaceFinish best] else [])))"

text \<open>The two guarded updates before the completion test, as the source orders them.\<close>

definition markStarted :: "real \<Rightarrow> RaceState \<Rightarrow> RaceState" where
  "markStarted currT r =
     (if \<not> r_started r \<and> currT > 0.05 then r\<lparr>r_started := True\<rparr> else r)"

definition markCrossed :: "track \<Rightarrow> real \<Rightarrow> real \<Rightarrow> RaceState \<Rightarrow> RaceState" where
  "markCrossed tp prevT currT r =
     (let tDelta = currT - prevT
      in if tDelta > 0 \<and> tDelta < 0.5
         then r\<lparr>r_checkpoints :=
                 mark_checkpoints (getCheckpointTs tp) 0 prevT currT (r_checkpoints r)\<rparr>
         else r)"

definition lapTrack :: "track \<Rightarrow> real \<Rightarrow> real \<Rightarrow> RaceState \<Rightarrow> RaceState \<times> event list" where
  "lapTrack tp currT now r =
     (let prevT = r_lastT r;
          r1 = markStarted currT r;
          (r3, evs) =
            (if r_started r1 then
               (let r2 = markCrossed tp prevT currT r1
                in if prevT > 0.85 \<and> currT < 0.15 \<and> every_Boolean (r_checkpoints r2)
                   then lapComplete tp now r2
                   else (r2, []))
             else (r1, []))
      in (r3\<lparr>r_lastT := currT\<rparr>, evs))"

text \<open>
  The race records a driving session can hold: the one stored on entering a car, and every
  record a lap-tracker update or the exit from the car produces from one of them.
\<close>

inductive race_reachable :: "track \<Rightarrow> RaceState \<Rightarrow> bool" for tp :: track where
  entered: "race_reachable tp (newRace tp now)"
| tracked: "race_reachable tp r \<Longrightarrow> race_reachable tp (fst (lapTrack tp currT now r))"
| exited: "race_reachable tp r \<Longrightarrow> race_reachable tp (r\<lparr>r_active := False\<rparr>)"

text \<open>The tracker run over the curve parameters of successive frames.\<close>

definition lapTracks :: "track \<Rightarrow> real \<Rightarrow> real list \<Rightarrow> RaceState \<Rightarrow> RaceState" where
  "lapTracks tp now ts r = foldl (\<lambda>r currT. fst (lapTrack tp currT now r)) r ts"

text \<open>
  What every reachable race record satisfies: a stored parameter above 0.05 means the
  session has started, and the checkpoint array has one slot per checkpoint and no hole.
\<close>

definition race_inv :: "track \<Rightarrow> RaceState \<Rightarrow> bool" where
  "race_inv tp r \<longleftrightarrow>
     (r_lastT r > 0.05 \<longrightarrow> r_started r)
     \<and> length (r_checkpoints r) = NUM_CHECKPOINTS tp
     \<and> None \<notin> set (r_checkpoints r)"

section \<open>Entities and refs of the player controller (PlayerCar.tsx)\<close>

datatype VehicleMode = walking | driving | flying

datatype VehicleType = car | airplane

record VehicleState =
  v_id :: string
  v_type :: VehicleType
  v_label :: string
  v_color :: string
  v_pos :: Vector3
  v_rot :: real
  v_speed :: real
  v_pitch :: real

record Keys =
  k_forward :: bool
  k_backward :: bool
  k_left :: bool
  k_right :: bool
  k_space :: bool
  k_shift :: bool

record FrameMouse =
  m_dx :: real
  m_dy :: real
  m_fireDown :: bool

record RemotePlayer =
  rp_id :: string
  rp_position :: Vector3
  rp_rotation :: real
  rp_speed :: real
  rp_mode :: VehicleMode
  rp_vehicleId :: "string option"

record Bullet =
  b_active :: bool
  b_pos :: Vector3
  b_vel :: Vector3
  b_age :: real

record AerialTarget =
  t_pos :: Vector3
  t_alive :: bool
  t_respawnTimer :: real

text \<open>
  The mutable refs of \<^verbatim>\<open>PlayerController\<close>, one field each.  \<open>fired\<close> is the log
  of the \<^verbatim>\<open>onLapComplete\<close> and \<^verbatim>\<open>onRaceFinish\<close> calls, oldest first.  Mesh
  refs and their visibility flags are rendering state and are left out.
\<close>

record Controller =
  modeRef :: VehicleMode
  charPos :: Vector3
  charRot :: real
  isMovingRef :: bool
  vehicles :: "VehicleState list"
  activeIdx :: "nat option"
  nearbyRef :: "string option"
  race :: RaceState
  boostMeter :: real
  carVelY :: real
  carOnGround :: bool
  flyYawVel :: real
  flyPitchVel :: real
  planeBankRef :: real
  bullets :: "Bullet list"
  lastFireTime :: real
  fireLeftRef :: bool
  muzzleTimer :: real
  targets :: "AerialTarget list"
  orbitYawRef :: real
  interactPressed :: bool
  syncTimer :: real
  fired :: "event list"

text \<open>
  A property read on \<^verbatim>\<open>undefined\<close> throws; the exception leaves the frame callback,
  so a step that throws has no resulting state.
\<close>

datatype error = TypeError

definition bindE :: "error + 'a \<Rightarrow> ('a \<Rightarrow> error + 'b) \<Rightarrow> error + 'b" where
  "bindE m f = (case m of Inl e \<Rightarrow> Inl e | Inr a \<Rightarrow> f a)"

text \<open>
  \<^verbatim>\<open>vehicles.current[activeIdx.current!]\<close>: the index and the vehicle, or nothing
  when the index is null or past the roster (the read itself does not throw).
\<close>

definition activeVehicle :: "Controller \<Rightarrow> (nat \<times> VehicleState) option" where
  "activeVehicle s =
     (case activeIdx s of
        None \<Rightarrow> None
      | Some i \<Rightarrow> if i < length (vehicles s) then Some (i, vehicles s ! i) else None)"

subsection \<open>Physics constants\<close>

abbreviation (input) WALK_speed :: real where "WALK_speed \<equiv> 8"
abbreviation (input) WALK_runSpeed :: real where "WALK_runSpeed \<equiv> 16"

abbreviation (input) DRIVE_maxSpeed :: real where "DRIVE_maxSpeed \<equiv> 90"
abbreviation (input) DRIVE_acceleration :: real where "DRIVE_acceleration \<equiv> 40"
abbreviation (input) DRIVE_braking :: real where "DRIVE_braking \<equiv> 55"
abbreviation (input) DRIVE_reverseMax :: real where "DRIVE_reverseMax \<equiv> 18"
abbreviation (input) DRIVE_friction :: real where "DRIVE_friction \<equiv> 0.985"
abbreviation (input) DRIVE_turnSpeed :: real where "DRIVE_turnSpeed \<equiv> 2.2"
abbreviation (input) DRIVE_grassFriction :: real where "DRIVE_grassFriction \<equiv> 0.978"
abbreviation (input) DRIVE_grassMaxSpeed :: real where "DRIVE_grassMaxSpeed \<equiv> 65"

abbreviation (input) FLY_maxSpeed :: real where "FLY_maxSpeed \<equiv> 120"
abbreviation (input) FLY_acceleration :: real where "FLY_acceleration \<equiv> 28"
abbreviation (input) FLY_brake :: real where "FLY_brake \<equiv> 22"
abbreviation (input) FLY_drag :: real where "FLY_drag \<equiv> 0.992"
abbreviation (input) FLY_climbRate :: real where "FLY_climbRate \<equiv> 25"
abbreviation (input) FLY_gravity :: real where "FLY_gravity \<equiv> 10"
abbreviation (input) FLY_minFlySpeed :: real where "FLY_minFlySpeed \<equiv> 20"
abbreviation (input) FLY_maxAltitude :: real where "FLY_maxAltitude \<equiv> 250"
abbreviation (input) FLY_groundY :: real where "FLY_groundY \<equiv> 1.5"

abbreviation (input) MAX_BULLETS :: nat where "MAX_BULLETS \<equiv> 30"
abbreviation (input) BULLET_SPEED :: real where "BULLET_SPEED \<equiv> 280"
abbreviation (input) BULLET_LIFETIME :: real where "BULLET_LIFETIME \<equiv> 2.5"
abbreviation (input) FIRE_COOLDOWN :: real where "FIRE_COOLDOWN \<equiv> 0.09"

abbreviation (input) CAR_COLLISION_RADIUS :: real where "CAR_COLLISION_RADIUS \<equiv> 1.2"
abbreviation (input) PLANE_COLLISION_RADIUS :: real where "PLANE_COLLISION_RADIUS \<equiv> 2.0"
abbreviation (input) COLLISION_BOUNCE :: real where "COLLISION_BOUNCE \<equiv> 0.6"

abbreviation (input) RAMP_x :: real where "RAMP_x \<equiv> 130"
abbreviation (input) RAMP_z :: real where "RAMP_z \<equiv> 200"
abbreviation (input) RAMP_width :: real where "RAMP_width \<equiv> 14"
abbreviation (input) RAMP_length :: real where "RAMP_length \<equiv> 20"
abbreviation (input) RAMP_height :: real where "RAMP_height \<equiv> 3.5"
abbreviation (input) RAMP_rotation :: real where "RAMP_rotation \<equiv> pi / 2"

abbreviation (input) MAX_STEP_UP :: real where "MAX_STEP_UP \<equiv> 0.6"
abbreviation (input) TARGET_HIT_RADIUS_SQ :: real where "TARGET_HIT_RADIUS_SQ \<equiv> 4 * 4"
abbreviation (input) TARGET_RESPAWN_TIME :: real where "TARGET_RESPAWN_TIME \<equiv> 3"
abbreviation (input) INTERACT_RADIUS_SQ :: real where "INTERACT_RADIUS_SQ \<equiv> 6 * 6"

subsection \<open>Ground height and leaving a vehicle\<close>

definition getGroundHeight :: "track \<Rightarrow> real \<Rightarrow> real \<Rightarrow> real" where
  "getGroundHeight tp x z =
     (let trackY = getTrackElevation tp (Vector3 x 0 z);
          lx = x - RAMP_x;
          lz = z - RAMP_z;
          cosR = cos RAMP_rotation;
          sinR = sin RAMP_rotation;
          rx = lx * cosR - lz * sinR;
          rz = lx * sinR + lz * cosR;
          halfW = RAMP_width / 2;
          halfL = RAMP_length / 2;
          rampY = (if rx \<ge> - halfW \<and> rx \<le> halfW \<and> rz \<ge> - halfL \<and> rz \<le> halfL
                   then ((rz + halfL) / RAMP_length) * RAMP_height else 0)
      in max trackY rampY)"

definition exitVehicle :: "track \<Rightarrow> Controller \<Rightarrow> error + Controller" where
  "exitVehicle tp s =
     (case activeVehicle s of
        None \<Rightarrow> Inl TypeError
      | Some (i, v) \<Rightarrow>
          (let exitX = vx (v_pos v) + (- cos (v_rot v) * 4);
               exitZ = vz (v_pos v) + sin (v_rot v) * 4;
               v' = v\<lparr>v_speed := 0,
                       v_pos := Vector3 (vx (v_pos v))
                                  (getGroundHeight tp (vx (v_pos v)) (vz (v_pos v)))
                                  (vz (v_pos v))\<rparr>
           in Inr (s\<lparr>charPos := Vector3 exitX (getGroundHeight tp exitX exitZ) exitZ,
                      charRot := v_rot v,
                      vehicles := (vehicles s)[i := v'],
                      activeIdx := None,
                      race := (race s)\<lparr>r_active := False\<rparr>,
                      modeRef := walking,
                      planeBankRef := 0,
                      carVelY := 0,
                      carOnGround := True\<rparr>)))"

subsection \<open>Driving\<close>

text \<open>The stages of \<^verbatim>\<open>tickDriving\<close>, in source order.\<close>

definition boostTick :: "real \<Rightarrow> bool \<Rightarrow> real \<Rightarrow> real" where
  "boostTick dt boosting boost =
     (if boosting then max 0 (boost - 30 * dt) else min 100 (boost + 12 * dt))"

definition driveMaxSpd :: "bool \<Rightarrow> bool \<Rightarrow> real" where
  "driveMaxSpd onRoad boosting =
     (if onRoad then DRIVE_maxSpeed else DRIVE_grassMaxSpeed) * (if boosting then 1.5 else 1)"

text \<open>The speed after the forward and backward keys, before friction.\<close>

definition driveAccelerate :: "real \<Rightarrow> Keys \<Rightarrow> bool \<Rightarrow> real \<Rightarrow> real" where
  "driveAccelerate dt k boosting speed =
     (let boostAccelMult = (if boosting then 1.8 else 1);
          s1 = (if k_forward k then speed + DRIVE_acceleration * boostAccelMult * dt else speed)
      in if k_backward k
         then (if s1 > 0 then s1 - DRIVE_braking * dt
               else s1 - DRIVE_acceleration * 0.5 * dt)
         else s1)"

text \<open>Friction, the clamp and the dead zone.\<close>

definition driveThrottle :: "real \<Rightarrow> Keys \<Rightarrow> bool \<Rightarrow> bool \<Rightarrow> real \<Rightarrow> real" where
  "driveThrottle dt k boosting onRoad speed =
     (let fric = (if onRoad then DRIVE_friction else DRIVE_grassFriction);
          s3 = driveAccelerate dt k boosting speed * fric;
          s4 = max (- DRIVE_reverseMax) (min (driveMaxSpd onRoad boosting) s3)
      in if \<bar>s4\<bar> < 0.15 \<and> \<not> k_forward k \<and> \<not> k_backward k then 0 else s4)"

text \<open>\<^verbatim>\<open>Math.sign(v.speed || 1)\<close>: a zero speed counts as forward.\<close>

definition sign_or_1 :: "real \<Rightarrow> real" where
  "sign_or_1 speed = (if speed = 0 then 1 else sgn speed)"

definition driveSteer :: "real \<Rightarrow> Keys \<Rightarrow> real \<Rightarrow> real \<Rightarrow> real" where
  "driveSteer dt k speed rot =
     (let turn = (if k_left k then 1 else 0) - (if k_right k then 1 else 0);
          sf = min (\<bar>speed\<bar> / 8) 1
      in rot + turn * DRIVE_turnSpeed * sf * dt * sign_or_1 speed)"

definition moveAlong :: "real \<Rightarrow> VehicleState \<Rightarrow> VehicleState" where
  "moveAlong dt v =
     v\<lparr>v_pos := Vector3 (vx (v_pos v) + sin (v_rot v) * v_speed v * dt)
                       (vy (v_pos v))
                       (vz (v_pos v) + cos (v_rot v) * v_speed v * dt)\<rparr>"

definition setY :: "real \<Rightarrow> VehicleState \<Rightarrow> VehicleState" where
  "setY h v = v\<lparr>v_pos := Vector3 (vx (v_pos v)) h (vz (v_pos v))\<rparr>"

text \<open>
  Vertical physics: the vehicle, \<^verbatim>\<open>carVelY\<close> and \<^verbatim>\<open>carOnGround\<close> go in and come
  out.  The wall case takes the move back and bounces the speed.
\<close>

definition driveVertical ::
  "track \<Rightarrow> real \<Rightarrow> Keys \<Rightarrow> VehicleState \<times> real \<times> bool \<Rightarrow> VehicleState \<times> real \<times> bool" where
  "driveVertical tp dt k st =
     (case st of (v, velY, onGround) \<Rightarrow>
        (let groundLevel = getGroundHeight tp (vx (v_pos v)) (vz (v_pos v))
         in if onGround then
              (let prevY = vy (v_pos v);
                   heightDiff = groundLevel - prevY;
                   (v1, velY1, og1) =
                     (if heightDiff > MAX_STEP_UP
                      then (v\<lparr>v_pos := Vector3 (vx (v_pos v) - sin (v_rot v) * v_speed v * dt)
                                          (vy (v_pos v))
                                          (vz (v_pos v) - cos (v_rot v) * v_speed v * dt),
                              v_speed := v_speed v * (- 0.3)\<rparr>, velY, True)
                      else if groundLevel \<ge> prevY - 0.3
                      then (setY groundLevel v, heightDiff / max dt 0.001, True)
                      else (v, velY, False))
               in if k_space k \<and> og1 then (v1, velY1 + 14, False) else (v1, velY1, og1))
            else
              (let velY1 = velY - 40 * dt;
                   y1 = vy (v_pos v) + velY1 * dt
               in if y1 \<le> groundLevel then (setY groundLevel v, 0, True)
                  else (setY y1 v, velY1, False))))"

text \<open>
  Lap tracking: \<open>pos3\<close> is the copy of the horizontal position taken before the move; the
  tracker runs only inside the distance gate.
\<close>

definition driveLap :: "track \<Rightarrow> Vector3 \<Rightarrow> real \<Rightarrow> RaceState \<Rightarrow> RaceState \<times> event list" where
  "driveLap tp pos3 now r =
     (let nearest = getNearestTrackInfo tp pos3
      in if num_less (n_distance nearest) (TRACK_WIDTH tp * 1.2)
         then lapTrack tp (n_t nearest) now r
         else (r, []))"

definition driveStep ::
  "track \<Rightarrow> real \<Rightarrow> Keys \<Rightarrow> real \<Rightarrow> nat \<Rightarrow> VehicleState \<Rightarrow> Controller \<Rightarrow> Controller" where
  "driveStep tp dt k now i v s =
     (let boosting = (k_shift k \<and> boostMeter s > 0 \<and> k_forward k);
          pos3 = Vector3 (vx (v_pos v)) 0 (vz (v_pos v));
          onRoad = isOnTrack tp pos3;
          speed1 = driveThrottle dt k boosting onRoad (v_speed v);
          v1 = moveAlong dt (v\<lparr>v_speed := speed1, v_rot := driveSteer dt k speed1 (v_rot v)\<rparr>);
          (v2, velY, onGround) = driveVertical tp dt k (v1, carVelY s, carOnGround s);
          (r, evs) = driveLap tp pos3 now (race s)
      in s\<lparr>boostMeter := boostTick dt boosting (boostMeter s),
            vehicles := (vehicles s)[i := v2],
            carVelY := velY,
            carOnGround := onGround,
            race := r,
            fired := fired s @ evs\<rparr>)"

definition tickDriving ::
  "track \<Rightarrow> real \<Rightarrow> Keys \<Rightarrow> bool \<Rightarrow> real \<Rightarrow> Controller \<Rightarrow> error + Controller" where
  "tickDriving tp dt k justE now s =
     (if justE then exitVehicle tp s
      else if r_finished (race s) then Inr s
      else (case activeVehicle s of
              None \<Rightarrow> Inl TypeError
            | Some (i, v) \<Rightarrow> Inr (driveStep tp dt k now i v s)))"

subsection \<open>Flying\<close>

definition flyAccelerate :: "real \<Rightarrow> Keys \<Rightarrow> real \<Rightarrow> real" where
  "flyAccelerate dt k speed =
     (let s1 = (if k_forward k then speed + FLY_acceleration * dt else speed)
      in if k_backward k then s1 - FLY_brake * dt else s1)"

definition flyThrottle :: "real \<Rightarrow> Keys \<Rightarrow> real \<Rightarrow> real" where
  "flyThrottle dt k speed = max 0 (min FLY_maxSpeed (flyAccelerate dt k speed * FLY_drag))"

text \<open>Pitch: impulse, clamp and auto-level.\<close>

definition flyPitch :: "real \<Rightarrow> real \<Rightarrow> real \<Rightarrow> real" where
  "flyPitch dt pitchVel pitch =
     (let pitch1 = max (- 0.7) (min 0.7 (pitch + pitchVel * dt))
      in pitch1 * (1 - 0.2 * dt))"

text \<open>Altitude from pitch, the climb and descend keys and the stall.\<close>

definition flyAltitude :: "real \<Rightarrow> Keys \<Rightarrow> real \<Rightarrow> real \<Rightarrow> real \<Rightarrow> real" where
  "flyAltitude dt k speed pitch y =
     (let a1 = (if speed \<ge> FLY_minFlySpeed * 0.5 then speed * sin (- pitch) * 0.5 else 0);
          a2 = (if k_space k then a1 + FLY_climbRate else a1);
          a3 = (if k_shift k then a2 - FLY_climbRate else a2);
          altDelta = (if y > FLY_groundY + 0.5 \<and> speed < FLY_minFlySpeed
                      then a3 - FLY_gravity else a3)
      in max FLY_groundY (min FLY_maxAltitude (y + altDelta * dt)))"

definition flyStep ::
  "real \<Rightarrow> Keys \<Rightarrow> FrameMouse \<Rightarrow> nat \<Rightarrow> VehicleState \<Rightarrow> Controller \<Rightarrow> Controller" where
  "flyStep dt k mouse i v s =
     (let speed1 = flyThrottle dt k (v_speed v);
          yawVel = (flyYawVel s + - m_dx mouse * 0.002) * (1 - 5 * dt);
          rot1 = v_rot v + yawVel * dt;
          pitchVel = (flyPitchVel s + m_dy mouse * 0.0015) * (1 - 4 * dt);
          pitch2 = flyPitch dt pitchVel (v_pitch v);
          y1 = flyAltitude dt k speed1 pitch2 (vy (v_pos v));
          v1 = moveAlong dt
                 ((setY y1 v)\<lparr>v_speed := speed1, v_rot := rot1, v_pitch := pitch2\<rparr>)
      in s\<lparr>vehicles := (vehicles s)[i := v1],
            flyYawVel := yawVel,
            flyPitchVel := pitchVel,
            planeBankRef := yawVel * 2.0\<rparr>)"

definition tickFlying ::
  "track \<Rightarrow> real \<Rightarrow> Keys \<Rightarrow> bool \<Rightarrow> FrameMouse \<Rightarrow> Controller \<Rightarrow> error + Controller" where
  "tickFlying tp dt k justE mouse s =
     (case activeVehicle s of
        None \<Rightarrow> Inl TypeError
      | Some (i, v) \<Rightarrow>
          if justE \<and> vy (v_pos v) \<le> FLY_groundY + 1
          then exitVehicle tp
                 (s\<lparr>vehicles := (vehicles s)[i := (setY FLY_groundY v)\<lparr>v_speed := 0, v_pitch := 0\<rparr>],
                    flyYawVel := 0,
                    flyPitchVel := 0\<rparr>)
          else Inr (flyStep dt k mouse i v s))"

subsection \<open>Bullets and aerial targets\<close>

definition makeBulletPool :: "Bullet list" where
  "makeBulletPool =
     replicate MAX_BULLETS
       \<lparr>b_active = False, b_pos = Vector3 0 0 0, b_vel = Vector3 0 0 0, b_age = 0\<rparr>"

definition makeTargets :: "AerialTarget list" where
  "makeTargets =
     map (\<lambda>p. \<lparr>t_pos = p, t_alive = True, t_respawnTimer = 0\<rparr>)
       [Vector3 40 50 60, Vector3 (-60) 70 30, Vector3 20 40 (-80), Vector3 (-30) 90 (-40),
        Vector3 80 60 (-20), Vector3 (-70) 55 70, Vector3 0 80 0, Vector3 50 45 90,
        Vector3 (-90) 65 (-60), Vector3 70 100 50]"

text \<open>\<^verbatim>\<open>pool.find((p) => !p.active)\<close>, as the index of the slot found.\<close>

fun find_inactive :: "Bullet list \<Rightarrow> nat option" where
  "find_inactive [] = None"
| "find_inactive (b # bs) =
     (if \<not> b_active b then Some 0 else map_option Suc (find_inactive bs))"

definition addScaledVector :: "Vector3 \<Rightarrow> Vector3 \<Rightarrow> real \<Rightarrow> Vector3" where
  "addScaledVector a v c = Vector3 (vx a + vx v * c) (vy a + vy v * c) (vz a + vz v * c)"

text \<open>\<^verbatim>\<open>Vector3.normalize\<close> divides by the length, or by 1 when the length is 0.\<close>

definition normalizeVector :: "Vector3 \<Rightarrow> Vector3" where
  "normalizeVector v =
     (let len = sqrt (vx v * vx v + vy v * vy v + vz v * vz v);
          d = (if len = 0 then 1 else len)
      in Vector3 (vx v / d) (vy v / d) (vz v / d))"

text \<open>
  \<^verbatim>\<open>fireBullet\<close>: nothing at all happens when no slot is free; only after that test
  is the active vehicle dereferenced.
\<close>

definition fireBullet :: "Controller \<Rightarrow> error + Controller" where
  "fireBullet s =
     (case find_inactive (bullets s) of
        None \<Rightarrow> Inr s
      | Some j \<Rightarrow>
          (case activeVehicle s of
             None \<Rightarrow> Inl TypeError
           | Some (i, v) \<Rightarrow>
               (let cp = cos (v_pitch v);
                    sp = sin (v_pitch v);
                    fwd = normalizeVector (Vector3 (sin (v_rot v) * cp) (- sp) (cos (v_rot v) * cp));
                    right = Vector3 (cos (v_rot v)) 0 (- sin (v_rot v));
                    offset = (if fireLeftRef s then - 2.8 else 2.8);
                    pos = addScaledVector (addScaledVector (v_pos v) fwd 3.5) right offset;
                    vel0 = Vector3 (vx fwd * BULLET_SPEED) (vy fwd * BULLET_SPEED)
                             (vz fwd * BULLET_SPEED);
                    vel = Vector3 (vx vel0 + sin (v_rot v) * v_speed v * 0.5) (vy vel0)
                            (vz vel0 + cos (v_rot v) * v_speed v * 0.5)
                in Inr (s\<lparr>bullets := (bullets s)
                              [j := \<lparr>b_active = True, b_pos = pos, b_vel = vel, b_age = 0\<rparr>],
                           fireLeftRef := (\<not> fireLeftRef s),
                           muzzleTimer := 0.04\<rparr>))))"

text \<open>
  The inner loop of \<^verbatim>\<open>tickBullets\<close>: the first alive target within the hit radius of
  \<open>p\<close> is destroyed; the flag tells whether one was.
\<close>

fun hit_scan :: "Vector3 \<Rightarrow> AerialTarget list \<Rightarrow> AerialTarget list \<times> bool" where
  "hit_scan p [] = ([], False)"
| "hit_scan p (t # ts) =
     (if \<not> t_alive t then (case hit_scan p ts of (ts', h) \<Rightarrow> (t # ts', h))
      else (let dx = vx p - vx (t_pos t);
                dy = vy p - vy (t_pos t);
                dz = vz p - vz (t_pos t)
            in if dx * dx + dy * dy + dz * dz < TARGET_HIT_RADIUS_SQ
               then (t\<lparr>t_alive := False, t_respawnTimer := TARGET_RESPAWN_TIME\<rparr> # ts, True)
               else (case hit_scan p ts of (ts', h) \<Rightarrow> (t # ts', h))))"

definition tickBullet :: "real \<Rightarrow> Bullet \<Rightarrow> AerialTarget list \<Rightarrow> Bullet \<times> AerialTarget list" where
  "tickBullet dt b ts =
     (if \<not> b_active b then (b, ts)
      else (let age = b_age b + dt
            in if age > BULLET_LIFETIME \<or> vy (b_pos b) < - 1
               then (b\<lparr>b_age := age, b_active := False\<rparr>, ts)
               else (let pos = addScaledVector (b_pos b) (b_vel b) dt;
                         vel = Vector3 (vx (b_vel b)) (vy (b_vel b) - 9.8 * dt) (vz (b_vel b));
                         (ts', h) = hit_scan pos ts
                     in (b\<lparr>b_age := age, b_pos := pos, b_vel := vel,
                           b_active := (\<not> h)\<rparr>, ts'))))"

fun tickBullets_loop ::
  "real \<Rightarrow> Bullet list \<Rightarrow> AerialTarget list \<Rightarrow> Bullet list \<times> AerialTarget list" where
  "tickBullets_loop dt [] ts = ([], ts)"
| "tickBullets_loop dt (b # bs) ts =
     (case tickBullet dt b ts of (b', ts') \<Rightarrow>
        (case tickBullets_loop dt bs ts' of (bs', ts'') \<Rightarrow> (b' # bs', ts'')))"

definition tickBullets :: "real \<Rightarrow> Controller \<Rightarrow> Controller" where
  "tickBullets dt s =
     (case tickBullets_loop dt (bullets s) (targets s) of
        (bs, ts) \<Rightarrow> s\<lparr>bullets := bs, targets := ts\<rparr>)"

definition tickMuzzleFlash :: "real \<Rightarrow> Controller \<Rightarrow> Controller" where
  "tickMuzzleFlash dt s =
     (if muzzleTimer s > 0 then s\<lparr>muzzleTimer := muzzleTimer s - dt\<rparr> else s)"

text \<open>
  \<^verbatim>\<open>t.respawnTimer -= dt\<close> stores the difference rounded to double precision.
\<close>

definition tickTarget :: "real \<Rightarrow> AerialTarget \<Rightarrow> AerialTarget" where
  "tickTarget dt t =
     (if \<not> t_alive t
      then (let timer = fround (t_respawnTimer t - dt)
            in if timer \<le> 0 then t\<lparr>t_respawnTimer := timer, t_alive := True\<rparr>
               else t\<lparr>t_respawnTimer := timer\<rparr>)
      else t)"

definition tickTargets :: "real \<Rightarrow> Controller \<Rightarrow> Controller" where
  "tickTargets dt s = s\<lparr>targets := map (tickTarget dt) (targets s)\<rparr>"

subsection \<open>Collisions between vehicles\<close>

text \<open>
  \<^verbatim>\<open>resolveCollision\<close>: \<open>me\<close> is the active vehicle, \<open>(ox, oz)\<close> the other entity,
  \<open>pushOther\<close> the position of the other local vehicle, or nothing for a remote player.
  Both come back updated.
\<close>

definition resolveCollision ::
  "real \<Rightarrow> VehicleState \<Rightarrow> real \<Rightarrow> real \<Rightarrow> real \<Rightarrow> Vector3 option
   \<Rightarrow> VehicleState \<times> Vector3 option" where
  "resolveCollision myRadius me ox oz otherRadius pushOther =
     (let minDist = myRadius + otherRadius;
          dx = vx (v_pos me) - ox;
          dz = vz (v_pos me) - oz;
          dist = sqrt (dx * dx + dz * dz)
      in if dist < minDist \<and> dist > 0.01
         then (let overlap = minDist - dist;
                   nx = dx / dist;
                   nz = dz / dist;
                   share = (if pushOther \<noteq> None then 0.5 else 1.0);
                   dot = sin (v_rot me) * nx + cos (v_rot me) * nz
               in (me\<lparr>v_pos := Vector3 (vx (v_pos me) + nx * overlap * share)
                                     (vy (v_pos me))
                                     (vz (v_pos me) + nz * overlap * share),
                      v_speed := (if dot > 0 then v_speed me * - COLLISION_BOUNCE
                                  else v_speed me)\<rparr>,
                   map_option
                     (\<lambda>p. Vector3 (vx p - nx * overlap * 0.5) (vy p) (vz p - nz * overlap * 0.5))
                     pushOther))
         else (me, pushOther))"

definition collisionRadius :: "VehicleType \<Rightarrow> real" where
  "collisionRadius ty = (if ty = car then CAR_COLLISION_RADIUS else PLANE_COLLISION_RADIUS)"

definition remoteRadius :: "VehicleMode \<Rightarrow> real" where
  "remoteRadius m =
     (if m = flying then PLANE_COLLISION_RADIUS
      else if m = driving then CAR_COLLISION_RADIUS
      else 1.0)"

text \<open>
  The loop over the local roster, from index \<open>i\<close> on: \<open>a\<close> is the active index, and the
  active vehicle is read afresh from the roster for every other vehicle.
\<close>

definition collideLocal :: "nat \<Rightarrow> nat \<Rightarrow> VehicleState list \<Rightarrow> VehicleState list" where
  "collideLocal a i vs =
     (if i = a then vs
      else (let me = vs ! a;
                other = vs ! i
            in case resolveCollision (collisionRadius (v_type me)) me
                      (vx (v_pos other)) (vz (v_pos other))
                      (collisionRadius (v_type other)) (Some (v_pos other)) of
                 (me', po) \<Rightarrow>
                   vs[a := me',
                      i := other\<lparr>v_pos := (case po of Some p \<Rightarrow> p | None \<Rightarrow> v_pos other)\<rparr>]))"

definition collideRemote :: "nat \<Rightarrow> RemotePlayer \<Rightarrow> VehicleState list \<Rightarrow> VehicleState list" where
  "collideRemote a rp vs =
     (let me = vs ! a
      in vs[a := fst (resolveCollision (collisionRadius (v_type me)) me
                        (vx (rp_position rp)) (vz (rp_position rp))
                        (remoteRadius (rp_mode rp)) None)])"

definition tickVehicleCollisions :: "RemotePlayer list \<Rightarrow> Controller \<Rightarrow> error + Controller" where
  "tickVehicleCollisions remotePlayers s =
     (if modeRef s = walking then Inr s
      else (case activeIdx s of
              None \<Rightarrow> Inr s
            | Some a \<Rightarrow>
                if a < length (vehicles s)
                then Inr (s\<lparr>vehicles :=
                            fold (collideRemote a) remotePlayers
                              (fold (collideLocal a) [0..<length (vehicles s)] (vehicles s))\<rparr>)
                else Inl TypeError))"

subsection \<open>Walking\<close>

text \<open>
  \<^verbatim>\<open>Math.atan2(y, x)\<close> on reals, by quadrant.
\<close>

definition Math_atan2 :: "real \<Rightarrow> real \<Rightarrow> real" where
  "Math_atan2 y x =
     (if x > 0 then arctan (y / x)
      else if x < 0 \<and> y \<ge> 0 then arctan (y / x) + pi
      else if x < 0 then arctan (y / x) - pi
      else if y > 0 then pi / 2
      else if y < 0 then - pi / 2
      else 0)"

text \<open>
  The two normalising loops on the heading difference:
  \<^verbatim>\<open>while (diff > Math.PI) diff -= Math.PI * 2\<close> and its mirror image.
\<close>

function wrap_down :: "real \<Rightarrow> real" where
  "wrap_down diff = (if diff > pi then wrap_down (diff - pi * 2) else diff)"
  by pat_completeness auto
termination
proof (relation "measure (\<lambda>d. nat \<lceil>(d - pi) / (pi * 2)\<rceil>)")
  show "wf (measure (\<lambda>d. nat \<lceil>(d - pi) / (pi * 2)\<rceil>))" by simp
next
  fix diff :: real
  assume d: "pi < diff"
  have e: "(diff - pi * 2 - pi) / (pi * 2) = (diff - pi) / (pi * 2) - 1"
    by (simp add: field_simps)
  have "0 < (diff - pi) / (pi * 2)" using d by simp
  then have "0 < \<lceil>(diff - pi) / (pi * 2)\<rceil>" by simp
  then show "(diff - pi * 2, diff) \<in> measure (\<lambda>d. nat \<lceil>(d - pi) / (pi * 2)\<rceil>)"
    unfolding in_measure e by simp
qed

function wrap_up :: "real \<Rightarrow> real" where
  "wrap_up diff = (if diff < - pi then wrap_up (diff + pi * 2) else diff)"
  by pat_completeness auto
termination
proof (relation "measure (\<lambda>d. nat \<lceil>(- pi - d) / (pi * 2)\<rceil>)")
  show "wf (measure (\<lambda>d. nat \<lceil>(- pi - d) / (pi * 2)\<rceil>))" by simp
next
  fix diff :: real
  assume d: "diff < - pi"
  have e: "(- pi - (diff + pi * 2)) / (pi * 2) = (- pi - diff) / (pi * 2) - 1"
    by (simp add: field_simps)
  have "0 < (- pi - diff) / (pi * 2)" using d by simp
  then have "0 < \<lceil>(- pi - diff) / (pi * 2)\<rceil>" by simp
  then show "(diff + pi * 2, diff) \<in> measure (\<lambda>d. nat \<lceil>(- pi - d) / (pi * 2)\<rceil>)"
    unfolding in_measure e by simp
qed

declare wrap_down.simps [simp del] wrap_up.simps [simp del]

text \<open>The camera-relative movement vector built from the four direction keys.\<close>

definition moveVector :: "Keys \<Rightarrow> real \<Rightarrow> real \<times> real" where
  "moveVector k camYaw =
     (let x1 = (if k_forward k then sin camYaw else 0);
          z1 = (if k_forward k then cos camYaw else 0);
          x2 = (if k_backward k then x1 - sin camYaw * 0.4 else x1);
          z2 = (if k_backward k then z1 - cos camYaw * 0.4 else z1);
          x3 = (if k_left k then x2 + sin (camYaw + pi / 2) else x2);
          z3 = (if k_left k then z2 + cos (camYaw + pi / 2) else z2);
          x4 = (if k_right k then x3 + sin (camYaw - pi / 2) else x3);
          z4 = (if k_right k then z3 + cos (camYaw - pi / 2) else z3)
      in (x4, z4))"

text \<open>
  The proximity scan: the closest vehicle not taken by a remote player, strictly inside
  the interaction radius.
\<close>

fun nearby_scan ::
  "string set \<Rightarrow> Vector3 \<Rightarrow> VehicleState list \<Rightarrow> real \<Rightarrow> string option \<Rightarrow> string option" where
  "nearby_scan taken p [] bestDist nearby = nearby"
| "nearby_scan taken p (v # vs) bestDist nearby =
     (if v_id v \<in> taken then nearby_scan taken p vs bestDist nearby
      else (let vdx = vx p - vx (v_pos v);
                vdz = vz p - vz (v_pos v);
                d2 = vdx * vdx + vdz * vdz
            in if d2 < bestDist then nearby_scan taken p vs d2 (Some (v_id v))
               else nearby_scan taken p vs bestDist nearby))"

fun findIndex :: "('a \<Rightarrow> bool) \<Rightarrow> 'a list \<Rightarrow> nat option" where
  "findIndex P [] = None"
| "findIndex P (x # xs) = (if P x then Some 0 else map_option Suc (findIndex P xs))"

definition walkMove :: "real \<Rightarrow> Keys \<Rightarrow> Controller \<Rightarrow> Controller" where
  "walkMove dt k s =
     (let baseSpeed = (if k_shift k then WALK_runSpeed else WALK_speed);
          camYaw = charRot s + orbitYawRef s;
          (moveX, moveZ) = moveVector k camYaw;
          moveLen = sqrt (moveX * moveX + moveZ * moveZ)
      in if moveLen > 0.001
         then (let nx = (moveX / moveLen) * baseSpeed;
                   nz = (moveZ / moveLen) * baseSpeed;
                   targetRot = Math_atan2 (moveX / moveLen) (moveZ / moveLen);
                   diff = wrap_up (wrap_down (targetRot - charRot s));
                   rot1 = charRot s + diff * min 1 (12 * dt);
                   rotDelta = rot1 - charRot s;
                   o1 = orbitYawRef s - rotDelta;
                   o2 = (if o1 > pi then o1 - pi * 2 else o1);
                   o3 = (if o2 < - pi then o2 + pi * 2 else o2)
               in s\<lparr>charPos := Vector3 (vx (charPos s) + nx * dt) (vy (charPos s))
                                   (vz (charPos s) + nz * dt),
                     charRot := rot1,
                     orbitYawRef := o3,
                     isMovingRef := True\<rparr>)
         else s\<lparr>isMovingRef := False\<rparr>)"

definition walkGround :: "track \<Rightarrow> real \<Rightarrow> Keys \<Rightarrow> real \<Rightarrow> Controller \<Rightarrow> Controller" where
  "walkGround tp dt k camYaw s =
     (let baseSpeed = (if k_shift k then WALK_runSpeed else WALK_speed);
          (moveX, moveZ) = moveVector k camYaw;
          moveLen = sqrt (moveX * moveX + moveZ * moveZ);
          p = charPos s;
          walkRampH = getGroundHeight tp (vx p) (vz p)
      in if walkRampH - vy p > MAX_STEP_UP
         then (let x1 = vx p - (if moveLen > 0.001 then moveX / moveLen else 0) * baseSpeed * dt;
                   z1 = vz p - (if moveLen > 0.001 then moveZ / moveLen else 0) * baseSpeed * dt
               in s\<lparr>charPos := Vector3 x1 (getGroundHeight tp x1 z1) z1\<rparr>)
         else s\<lparr>charPos := Vector3 (vx p) walkRampH (vz p)\<rparr>)"

text \<open>
  Entering the vehicle found by the scan.  An empty identifier is falsy in
  \<^verbatim>\<open>justE && nearbyRef.current\<close>.
\<close>

definition enterVehicle :: "track \<Rightarrow> real \<Rightarrow> Controller \<Rightarrow> Controller" where
  "enterVehicle tp now s =
     (case nearbyRef s of
        None \<Rightarrow> s
      | Some n \<Rightarrow>
          if n = [] then s
          else (case findIndex (\<lambda>v. v_id v = n) (vehicles s) of
                  None \<Rightarrow> s
                | Some idx \<Rightarrow>
                    (let v = vehicles s ! idx;
                         s1 = s\<lparr>activeIdx := Some idx,
                                modeRef := (if v_type v = car then driving else flying),
                                nearbyRef := None\<rparr>
                     in if v_type v = car then s1\<lparr>race := newRace tp now\<rparr> else s1)))"

definition tickWalking ::
  "track \<Rightarrow> real \<Rightarrow> Keys \<Rightarrow> bool \<Rightarrow> string set \<Rightarrow> real \<Rightarrow> Controller \<Rightarrow> Controller" where
  "tickWalking tp dt k justE taken now s =
     (let camYaw = charRot s + orbitYawRef s;
          s1 = walkMove dt k s;
          s2 = walkGround tp dt k camYaw s1;
          s3 = s2\<lparr>nearbyRef := nearby_scan taken (charPos s2) (vehicles s2) INTERACT_RADIUS_SQ None\<rparr>
      in if justE then enterVehicle tp now s3 else s3)"

subsection \<open>The state handed to the HUD and the network\<close>

record PlayerState =
  ps_mode :: VehicleMode
  ps_position :: Vector3
  ps_rotation :: real
  ps_speed :: real
  ps_altitude :: real
  ps_lap :: nat
  ps_lapTime :: real
  ps_bestLapTime :: "real option"
  ps_totalTime :: real
  ps_checkpoints :: "bool option list"
  ps_boost :: real
  ps_nearbyVehicle :: "string option"
  ps_nearbyVehicleLabel :: "string option"
  ps_vehicleId :: "string option"
  ps_pitch :: real
  ps_bank :: real

definition syncToReact :: "Keys \<Rightarrow> real \<Rightarrow> Controller \<Rightarrow> error + PlayerState" where
  "syncToReact k now s =
     (let r = race s;
          moving = (if modeRef s = walking
                    then Some (charPos s, charRot s,
                           (if isMovingRef s then (if k_shift k then WALK_runSpeed else WALK_speed)
                            else 0), 0)
                    else (case activeVehicle s of
                            None \<Rightarrow> None
                          | Some (i, v) \<Rightarrow> Some (v_pos v, v_rot v, v_speed v, vy (v_pos v))))
      in case moving of
           None \<Rightarrow> Inl TypeError
         | Some (pos, rot, speed, alt) \<Rightarrow>
             if activeIdx s \<noteq> None \<and> activeVehicle s = None then Inl TypeError
             else Inr \<lparr>ps_mode = modeRef s, ps_position = pos, ps_rotation = rot,
                       ps_speed = speed, ps_altitude = alt,
                       ps_lap = (if r_active r then r_lap r else 0),
                       ps_lapTime = (if r_active r then now - r_lapStart r else 0),
                       ps_bestLapTime = r_bestLap r,
                       ps_totalTime = (if r_active r then now - r_raceStart r else 0),
                       ps_checkpoints = r_checkpoints r,
                       ps_boost = boostMeter s,
                       ps_nearbyVehicle = nearbyRef s,
                       ps_nearbyVehicleLabel =
                         (case nearbyRef s of
                            None \<Rightarrow> None
                          | Some n \<Rightarrow>
                              if n = [] then None
                              else map_option v_label (find (\<lambda>v. v_id v = n) (vehicles s))),
                       ps_vehicleId = map_option (\<lambda>(i, v). v_id v) (activeVehicle s),
                       ps_pitch = (case activeVehicle s of None \<Rightarrow> 0 | Some (i, v) \<Rightarrow> v_pitch v),
                       ps_bank = planeBankRef s\<rparr>)"

subsection \<open>The frame loop\<close>

text \<open>
  One call of the \<^verbatim>\<open>useFrame\<close> callback: \<open>delta\<close> is the clock delta, \<open>k\<close> the keys
  held, \<open>mouse\<close> the mouse state, \<open>taken\<close> and \<open>remotePlayers\<close> the props, \<open>now\<close> what
  \<^verbatim>\<open>performance.now()\<close> returns during the frame.  The mode is read once, before the
  mode step; the collision resolver reads it again.  The result is the new refs and the
  state pushed to the HUD, if this frame pushed one.
\<close>

definition fireWeapon :: "VehicleMode \<Rightarrow> FrameMouse \<Rightarrow> real \<Rightarrow> Controller \<Rightarrow> error + Controller" where
  "fireWeapon mode mouse now s =
     (if mode = flying \<and> m_fireDown mouse
      then (let t = now / 1000
            in if t - lastFireTime s \<ge> FIRE_COOLDOWN
               then fireBullet (s\<lparr>lastFireTime := t\<rparr>)
               else Inr s)
      else Inr s)"

definition modeStep ::
  "track \<Rightarrow> real \<Rightarrow> Keys \<Rightarrow> bool \<Rightarrow> FrameMouse \<Rightarrow> string set \<Rightarrow> real
   \<Rightarrow> Controller \<Rightarrow> error + Controller" where
  "modeStep tp dt k justE mouse taken now s =
     (case modeRef s of
        walking \<Rightarrow> Inr (tickWalking tp dt k justE taken now s)
      | driving \<Rightarrow> tickDriving tp dt k justE now s
      | flying \<Rightarrow> tickFlying tp dt k justE mouse s)"

text \<open>The projectile part of a frame: bullets, muzzle flash, then targets.\<close>

definition projectileFrame :: "real \<Rightarrow> Controller \<Rightarrow> Controller" where
  "projectileFrame dt s = tickTargets dt (tickMuzzleFlash dt (tickBullets dt s))"

definition simulate ::
  "track \<Rightarrow> real \<Rightarrow> Keys \<Rightarrow> FrameMouse \<Rightarrow> string set \<Rightarrow> RemotePlayer list \<Rightarrow> real
   \<Rightarrow> Controller \<Rightarrow> error + Controller" where
  "simulate tp dt k mouse taken remotePlayers now s =
     (let justE = interactPressed s;
          mode = modeRef s
      in bindE (modeStep tp dt k justE mouse taken now (s\<lparr>interactPressed := False\<rparr>))
           (\<lambda>s1. bindE (fireWeapon mode mouse now s1)
              (\<lambda>s2. tickVehicleCollisions remotePlayers (projectileFrame dt s2))))"

definition frame ::
  "track \<Rightarrow> real \<Rightarrow> Keys \<Rightarrow> FrameMouse \<Rightarrow> string set \<Rightarrow> RemotePlayer list \<Rightarrow> real
   \<Rightarrow> Controller \<Rightarrow> error + Controller \<times> PlayerState option" where
  "frame tp delta k mouse taken remotePlayers now s =
     (let dt = min delta 0.05
      in bindE (simulate tp dt k mouse taken remotePlayers now s)
           (\<lambda>s1. let timer = syncTimer s1 + dt
                  in if timer > 0.066
                     then bindE (syncToReact k now (s1\<lparr>syncTimer := 0\<rparr>))
                            (\<lambda>st. Inr (s1\<lparr>syncTimer := 0\<rparr>, Some st))
                     else Inr (s1\<lparr>syncTimer := timer\<rparr>, None)))"

section \<open>Leaderboard handler of the relay server\<close>

text \<open>
  \<^verbatim>\<open>app.post('/api/leaderboard')\<close>.  The request body follows the documented contract:
  \<open>name\<close> is a string or absent, \<open>time\<close> a number or absent (a \<open>time\<close> that is not a
  number is treated as absent, \<^verbatim>\<open>typeof time !== 'number'\<close>).  An empty name is falsy
  and is rejected like an absent one.  The store is the content of the leaderboard file:
  nothing when the file is missing or unreadable.  \<open>writeOk\<close> tells whether
  \<^verbatim>\<open>writeFileSync\<close> succeeds; its exception is swallowed.  \<open>now\<close> is
  \<^verbatim>\<open>new Date().toISOString()\<close>.
\<close>

record LeaderboardEntry =
  e_name :: string
  e_time :: real
  e_date :: string

record Body =
  body_name :: "string option"
  body_time :: "real option"

datatype response = BadRequest | Success nat

definition loadLeaderboard :: "LeaderboardEntry list option \<Rightarrow> LeaderboardEntry list" where
  "loadLeaderboard file = (case file of None \<Rightarrow> [] | Some es \<Rightarrow> es)"

definition saveLeaderboard ::
  "bool \<Rightarrow> LeaderboardEntry list \<Rightarrow> LeaderboardEntry list option \<Rightarrow> LeaderboardEntry list option" where
  "saveLeaderboard writeOk entries file = (if writeOk then Some entries else file)"

definition postLeaderboard ::
  "bool \<Rightarrow> string \<Rightarrow> Body \<Rightarrow> LeaderboardEntry list option
   \<Rightarrow> response \<times> LeaderboardEntry list option" where
  "postLeaderboard writeOk now body file =
     (case (body_name body, body_time body) of
        (Some name, Some time) \<Rightarrow>
          if name = [] \<or> time \<le> 0 then (BadRequest, file)
          else (let entries = loadLeaderboard file
                              @ [\<lparr>e_name = take 20 name, e_time = time, e_date = now\<rparr>];
                    sorted = sort_key e_time entries;
                    trimmed = take 200 sorted;
                    rank = (case findIndex (\<lambda>e. e_time e = time \<and> e_name e = name) trimmed of
                              None \<Rightarrow> 0
                            | Some i \<Rightarrow> i + 1)
                in (Success rank, saveLeaderboard writeOk trimmed file))
      | _ \<Rightarrow> (BadRequest, file))"

section \<open>Sessions\<close>

text \<open>
  The roster of \<^verbatim>\<open>makeVehicles\<close> and the initial values of the refs.  The start
  position and heading come from the spline (\<^verbatim>\<open>getStartPosition\<close>) and are
  parameters.
\<close>

definition mkVehicle :: "string \<Rightarrow> VehicleType \<Rightarrow> string \<Rightarrow> string \<Rightarrow> Vector3 \<Rightarrow> real \<Rightarrow> VehicleState" where
  "mkVehicle i ty l c p r =
     \<lparr>v_id = i, v_type = ty, v_label = l, v_color = c, v_pos = p, v_rot = r,
      v_speed = 0, v_pitch = 0\<rparr>"

definition makeVehicles :: "Vector3 \<Rightarrow> real \<Rightarrow> VehicleState list" where
  "makeVehicles start rotation =
     (let sy = vy start - 0.5
      in [mkVehicle ''car-red'' car ''Red Racer'' ''#e63946''
            (Vector3 (vx start + 12) sy (vz start + 10)) rotation,
          mkVehicle ''car-blue'' car ''Blue Bolt'' ''#457b9d''
            (Vector3 (vx start + 12) sy (vz start + 16)) rotation,
          mkVehicle ''car-green'' car ''Green Machine'' ''#2a9d8f''
            (Vector3 (vx start + 12) sy (vz start + 22)) rotation,
          mkVehicle ''car-orange'' car ''Orange Fury'' ''#e76f51''
            (Vector3 (vx start + 18) sy (vz start + 10)) rotation,
          mkVehicle ''plane-blue'' airplane ''Sky Hawk'' ''#4488cc''
            (Vector3 (vx start + 25) FLY_groundY (vz start)) rotation,
          mkVehicle ''plane-red'' airplane ''Red Baron'' ''#cc3333''
            (Vector3 (vx start + 25) FLY_groundY (vz start + 10)) rotation,
          mkVehicle ''plane-gold'' airplane ''Golden Eagle'' ''#d4a017''
            (Vector3 (vx start + 25) FLY_groundY (vz start + 20)) rotation])"

definition initialController :: "Vector3 \<Rightarrow> real \<Rightarrow> Controller" where
  "initialController start rotation =
     \<lparr>modeRef = walking,
      charPos = Vector3 (vx start) 0 (vz start + 12),
      charRot = rotation,
      isMovingRef = False,
      vehicles = makeVehicles start rotation,
      activeIdx = None,
      nearbyRef = None,
      race = \<lparr>r_active = False, r_lap = 0, r_lapStart = 0, r_raceStart = 0, r_bestLap = None,
               r_checkpoints = [], r_started = False, r_lastT = 0, r_finished = False\<rparr>,
      boostMeter = 100,
      carVelY = 0,
      carOnGround = True,
      flyYawVel = 0,
      flyPitchVel = 0,
      planeBankRef = 0,
      bullets = makeBulletPool,
      lastFireTime = 0,
      fireLeftRef = True,
      muzzleTimer = 0,
      targets = makeTargets,
      orbitYawRef = 0,
      interactPressed = False,
      syncTimer = 0,
      fired = []\<rparr>"

text \<open>
  A session in vehicle \<open>i\<close> of the roster, placed at \<open>p\<close> with heading \<open>rot\<close> and speed
  \<open>speed\<close>: what the refs hold some time after the player entered that vehicle.
\<close>

definition inVehicle :: "track \<Rightarrow> nat \<Rightarrow> Vector3 \<Rightarrow> real \<Rightarrow> real \<Rightarrow> Controller" where
  "inVehicle tp i p rot speed =
     (let s = initialController (Vector3 0 0.5 0) 0;
          v = (vehicles s ! i)\<lparr>v_pos := p, v_rot := rot, v_speed := speed\<rparr>
      in s\<lparr>modeRef := (if v_type v = car then driving else flying),
            activeIdx := Some i,
            vehicles := (vehicles s)[i := v],
            race := (if v_type v = car then newRace tp 0 else race s)\<rparr>)"

text \<open>Successive driving steps without the interact key: frame delta, keys and clock each.\<close>

fun tickDrivingSeq :: "track \<Rightarrow> (real \<times> Keys \<times> real) list \<Rightarrow> Controller \<Rightarrow> error + Controller" where
  "tickDrivingSeq tp [] s = Inr s"
| "tickDrivingSeq tp ((dt, k, now) # steps) s =
     bindE (tickDriving tp dt k False now s) (tickDrivingSeq tp steps)"

text \<open>Successive projectile frames, one per frame delta.\<close>

fun projectileFrames :: "real list \<Rightarrow> Controller \<Rightarrow> Controller" where
  "projectileFrames [] s = s"
| "projectileFrames (dt # dts) s = projectileFrames dts (projectileFrame dt s)"


definition noKeys :: Keys where
  "noKeys = \<lparr>k_forward = False, k_backward = False, k_left = False, k_right = False,
             k_space = False, k_shift = False\<rparr>"

definition noMouse :: FrameMouse where
  "noMouse = \<lparr>m_dx = 0, m_dy = 0, m_fireDown = False\<rparr>"

text \<open>
  Inputs of the examples: a track whose nearest sample is 15 units from the parked red car,
  the red car as the roster holds it, and a session whose last lap is done.
\<close>

definition farTrack :: track where
  "farTrack = trackPath [Vector3 1000 0 10, Vector3 12 0 25]"

definition carRed :: VehicleState where
  "carRed = mkVehicle ''car-red'' car ''Red Racer'' ''#e63946'' (Vector3 12 0 10) 0"

definition finishedSession :: "track \<Rightarrow> Controller" where
  "finishedSession tp =
     (inVehicle tp 0 (Vector3 12 0 10) 0 0)
       \<lparr>race := (newRace tp 0)\<lparr>r_lap := TOTAL_LAPS tp, r_finished := True\<rparr>\<rparr>"

text \<open>
  A session in the first plane with one bullet in flight, 14 units short of the first
  aerial target and closing at 280 units per second.
\<close>

definition hitSession :: Controller where
  "hitSession =
     (inVehicle farTrack 4 (Vector3 25 100 0) 0 60)
       \<lparr>bullets := makeBulletPool
          [0 := \<lparr>b_active = True, b_pos = Vector3 40 50 46, b_vel = Vector3 0 0 280,
                 b_age = 0\<rparr>]\<rparr>"

text \<open>What a bullet hit makes of a target.\<close>

definition shot :: "AerialTarget \<Rightarrow> AerialTarget" where
  "shot t = t\<lparr>t_alive := False, t_respawnTimer := TARGET_RESPAWN_TIME\<rparr>"

text \<open>
  Observations on the outcome of a step: the speed and the heading of the active vehicle,
  when the step returned and a vehicle is active.
\<close>

definition activeSpeed :: "error + Controller \<Rightarrow> real option" where
  "activeSpeed res =
     (case res of
        Inl e \<Rightarrow> None
      | Inr s \<Rightarrow> (case activeVehicle s of None \<Rightarrow> None | Some (i, v) \<Rightarrow> Some (v_speed v)))"

definition activeHeading :: "error + Controller \<Rightarrow> real option" where
  "activeHeading res =
     (case res of
        Inl e \<Rightarrow> None
      | Inr s \<Rightarrow> (case activeVehicle s of None \<Rightarrow> None | Some (i, v) \<Rightarrow> Some (v_rot v)))"

definition fwdKeys :: Keys where
  "fwdKeys = noKeys\<lparr>k_forward := True\<rparr>"

definition carBlue :: VehicleState where
  "carBlue = mkVehicle ''car-blue'' car ''Blue Bolt'' ''#457b9d'' (Vector3 12 0 16) 0"

definition leftKeys :: Keys where
  "leftKeys = fwdKeys\<lparr>k_left := True\<rparr>"

text \<open>
  Leaderboard inputs of the examples: one stored lap, a full store of 200 laps with
  increasing times, and two requests.
\<close>

definition aceEntry :: LeaderboardEntry where
  "aceEntry = \<lparr>e_name = ''Ace'', e_time = 65000, e_date = ''2026-01-01T10:00:00.000Z''\<rparr>"

definition aceBody :: Body where
  "aceBody = \<lparr>body_name = Some ''Ace'', body_time = Some 65000\<rparr>"

definition fullBoard :: "LeaderboardEntry list" where
  "fullBoard =
     map (\<lambda>i. \<lparr>e_name = ''Ace'', e_time = 60000 + real i,
                e_date = ''2026-01-01T10:00:00.000Z''\<rparr>) [0..<200]"

definition slowBody :: Body where
  "slowBody = \<lparr>body_name = Some ''Bob'', body_time = Some 90000\<rparr>"

text \<open>
  A track of the first revision whose samples 99 and 100 lie 4.5 units apart, the first of
  them under the parked red car; the samples before them are far away.  Sample 100 has
  the curve parameter of the first checkpoint, 0.2.
\<close>

definition postTrack :: track where
  "postTrack =
     trackPath (replicate 99 (Vector3 1000 0 0) @ [Vector3 12 0 10, Vector3 12 0 14.5])"

text \<open>Target \<open>j\<close> is dead and its respawn countdown stands at \<open>t\<close>.\<close>

definition countingDown :: "nat \<Rightarrow> real \<Rightarrow> Controller \<Rightarrow> bool" where
  "countingDown j t s \<longleftrightarrow>
     j < length (targets s) \<and> \<not> t_alive (targets s ! j) \<and> t_respawnTimer (targets s ! j) = t"

section \<open>The lap tracker\<close>


lemma js_set_in_range:
  "i < length cps \<Longrightarrow> None \<notin> set cps \<Longrightarrow>
   length (js_set cps i v) = length cps \<and> None \<notin> set (js_set cps i v)"
  by (auto simp: js_set_def dest: set_update_subset_insert [THEN subsetD])

lemma mark_checkpoints_shape:
  "i + length cs \<le> length cps \<Longrightarrow> None \<notin> set cps \<Longrightarrow>
   length (mark_checkpoints cs i prevT currT cps) = length cps
   \<and> None \<notin> set (mark_checkpoints cs i prevT currT cps)"
proof (induction cs arbitrary: i cps)
  case Nil
  then show ?case by simp
next
  case (Cons c cs)
  have i: "i < length cps" using Cons.prems by simp
  let ?cps = "if js_get cps i \<noteq> Some True \<and> prevT < c \<and> c \<le> currT then js_set cps i True else cps"
  have "length ?cps = length cps \<and> None \<notin> set ?cps"
    using js_set_in_range [OF i Cons.prems(2)] Cons.prems(2) by simp
  then have "length (mark_checkpoints cs (Suc i) prevT currT ?cps) = length ?cps
     \<and> None \<notin> set (mark_checkpoints cs (Suc i) prevT currT ?cps)"
    using Cons.IH [of "Suc i" ?cps] Cons.prems(1) by simp
  then show ?case
    using \<open>length ?cps = length cps \<and> None \<notin> set ?cps\<close> by simp
qed

lemma length_getCheckpointTs: "length (getCheckpointTs tp) = NUM_CHECKPOINTS tp"
  by (simp add: getCheckpointTs_def)

lemma fresh_checkpoints:
  "map (\<lambda>_. Some False) (getCheckpointTs tp) = replicate (NUM_CHECKPOINTS tp) (Some False)"
  by (simp add: map_replicate_const length_getCheckpointTs)

lemma lapComplete_fields:
  "r_started (fst (lapComplete tp now r)) = r_started r"
  "r_lastT (fst (lapComplete tp now r)) = r_lastT r"
  "r_active (fst (lapComplete tp now r)) = r_active r"
  "r_raceStart (fst (lapComplete tp now r)) = r_raceStart r"
  "r_checkpoints (fst (lapComplete tp now r)) = replicate (NUM_CHECKPOINTS tp) (Some False)"
  "r_lap (fst (lapComplete tp now r)) = r_lap r + 1"
  "r_lapStart (fst (lapComplete tp now r)) = now"
  "r_finished (fst (lapComplete tp now r)) = (r_finished r \<or> TOTAL_LAPS tp \<le> r_lap r + 1)"
  by (simp_all add: lapComplete_def Let_def fresh_checkpoints)

lemma lapComplete_best:
  "r_bestLap (fst (lapComplete tp now r)) =
     (case r_bestLap r of None \<Rightarrow> Some (now - r_lapStart r)
      | Some b \<Rightarrow> Some (min b (now - r_lapStart r)))"
  by (cases "r_bestLap r") (simp_all add: lapComplete_def Let_def min_def)

lemma lapComplete_events:
  "snd (lapComplete tp now r) =
     LapComplete (now - r_lapStart r)
     # (if TOTAL_LAPS tp \<le> r_lap r + 1
        then [RaceFinish (r_bestLap (fst (lapComplete tp now r)))]
        else [])"
  by (simp add: lapComplete_def Let_def)


lemma markStarted_fields:
  "r_started (markStarted currT r) = (r_started r \<or> currT > 0.05)"
  "r_lastT (markStarted currT r) = r_lastT r"
  "r_checkpoints (markStarted currT r) = r_checkpoints r"
  "r_lap (markStarted currT r) = r_lap r"
  "r_bestLap (markStarted currT r) = r_bestLap r"
  "r_lapStart (markStarted currT r) = r_lapStart r"
  "r_finished (markStarted currT r) = r_finished r"
  by (simp_all add: markStarted_def)

lemma markCrossed_fields:
  "r_started (markCrossed tp prevT currT r) = r_started r"
  "r_lastT (markCrossed tp prevT currT r) = r_lastT r"
  "r_lap (markCrossed tp prevT currT r) = r_lap r"
  "r_bestLap (markCrossed tp prevT currT r) = r_bestLap r"
  "r_lapStart (markCrossed tp prevT currT r) = r_lapStart r"
  "r_finished (markCrossed tp prevT currT r) = r_finished r"
  by (simp_all add: markCrossed_def Let_def)

lemma markCrossed_shape:
  assumes "length (r_checkpoints r) = NUM_CHECKPOINTS tp" "None \<notin> set (r_checkpoints r)"
  shows "length (r_checkpoints (markCrossed tp prevT currT r)) = NUM_CHECKPOINTS tp
     \<and> None \<notin> set (r_checkpoints (markCrossed tp prevT currT r))"
  using mark_checkpoints_shape [of 0 "getCheckpointTs tp" "r_checkpoints r" prevT currT] assms
  by (simp add: markCrossed_def Let_def length_getCheckpointTs)

lemma markCrossed_backwards:
  "currT \<le> prevT \<Longrightarrow> markCrossed tp prevT currT r = r"
  by (simp add: markCrossed_def Let_def)

lemma lapTrack_unstarted:
  "\<not> r_started (markStarted currT r) \<Longrightarrow>
   lapTrack tp currT now r = ((markStarted currT r)\<lparr>r_lastT := currT\<rparr>, [])"
  by (simp add: lapTrack_def Let_def)

lemma lapTrack_completes:
  "r_started (markStarted currT r) \<Longrightarrow> r_lastT r > 0.85 \<and> currT < 0.15
     \<and> every_Boolean (r_checkpoints (markCrossed tp (r_lastT r) currT (markStarted currT r))) \<Longrightarrow>
   lapTrack tp currT now r =
     (fst (lapComplete tp now (markCrossed tp (r_lastT r) currT (markStarted currT r)))
        \<lparr>r_lastT := currT\<rparr>,
      snd (lapComplete tp now (markCrossed tp (r_lastT r) currT (markStarted currT r))))"
  by (simp add: lapTrack_def Let_def split_beta)

lemma lapTrack_continues:
  "r_started (markStarted currT r) \<Longrightarrow> \<not> (r_lastT r > 0.85 \<and> currT < 0.15
     \<and> every_Boolean (r_checkpoints (markCrossed tp (r_lastT r) currT (markStarted currT r)))) \<Longrightarrow>
   lapTrack tp currT now r =
     ((markCrossed tp (r_lastT r) currT (markStarted currT r))\<lparr>r_lastT := currT\<rparr>, [])"
  by (auto simp add: lapTrack_def Let_def split_beta)


lemma race_inv_newRace: "race_inv tp (newRace tp now)"
  by (simp add: race_inv_def newRace_def fresh_checkpoints)

lemma race_inv_lapTrack:
  assumes "race_inv tp r"
  shows "race_inv tp (fst (lapTrack tp currT now r))"
proof -
  let ?r1 = "markStarted currT r"
  let ?r2 = "markCrossed tp (r_lastT r) currT ?r1"
  have len: "length (r_checkpoints ?r1) = NUM_CHECKPOINTS tp" and nn: "None \<notin> set (r_checkpoints ?r1)"
    using assms by (simp_all add: race_inv_def markStarted_fields)
  note m = markCrossed_shape [OF len nn, of "r_lastT r" currT]
  show ?thesis
  proof (cases "r_started ?r1")
    case False
    then have e: "lapTrack tp currT now r = (?r1\<lparr>r_lastT := currT\<rparr>, [])"
      by (rule lapTrack_unstarted)
    show ?thesis
      unfolding e race_inv_def
      using len nn False by (simp add: markStarted_fields)
  next
    case True
    show ?thesis
    proof (cases "r_lastT r > 0.85 \<and> currT < 0.15 \<and> every_Boolean (r_checkpoints ?r2)")
      case c: True
      have e: "lapTrack tp currT now r =
          (fst (lapComplete tp now ?r2)\<lparr>r_lastT := currT\<rparr>, snd (lapComplete tp now ?r2))"
        using True c by (rule lapTrack_completes)
      show ?thesis
        unfolding e race_inv_def
        using True by (simp add: lapComplete_fields markCrossed_fields)
    next
      case c: False
      have e: "lapTrack tp currT now r = (?r2\<lparr>r_lastT := currT\<rparr>, [])"
        using True c by (rule lapTrack_continues)
      show ?thesis
        unfolding e race_inv_def
        using True m by (simp add: markCrossed_fields)
    qed
  qed
qed

lemma race_reachable_inv: "race_reachable tp r \<Longrightarrow> race_inv tp r"
proof (induction rule: race_reachable.induct)
  case (entered now)
  show ?case by (rule race_inv_newRace)
next
  case (tracked r currT now)
  then show ?case by (simp add: race_inv_lapTrack)
next
  case (exited r)
  then show ?case by (simp add: race_inv_def)
qed

lemma every_Boolean_no_holes:
  "None \<notin> set cps \<Longrightarrow> every_Boolean cps \<longleftrightarrow> (\<forall>c\<in>set cps. c = Some True)"
proof (induction cps)
  case Nil
  show ?case by (simp add: every_Boolean_def)
next
  case (Cons c cps)
  then show ?case by (cases c) (auto simp: every_Boolean_def)
qed



text \<open>
  Claim C1.  For every race record a driving session can reach and every lap-tracker
  update with previous curve parameter \<open>prevT = r_lastT r\<close> and current parameter
  \<open>currT\<close>: the lap counter changes exactly when \<open>prevT > 0.85\<close>,
  \<open>currT < 0.15\<close> and every checkpoint flag is true.  Then it grows by one, the best
  lap becomes the new lap duration when that is smaller than the stored best or none was
  stored, the lap start is reset to the current clock, all checkpoint flags are reset, the
  lap-complete callback fires with the lap duration, and when the incremented counter
  reaches the configured total the session is marked finished and the race-finish callback
  fires.  In every other update, in particular a wrap with a checkpoint flag still false,
  the lap counter, the best lap, the lap start and the finished flag stay as they were and
  no callback fires.
\<close>

theorem lap_completion_gate:
  assumes "race_reachable tp r"
  shows "case lapTrack tp currT now r of (r', evs) \<Rightarrow>
     (if r_lastT r > 0.85 \<and> currT < 0.15 \<and> (\<forall>c \<in> set (r_checkpoints r). c = Some True)
      then r_lap r' = r_lap r + 1
         \<and> r_bestLap r' = (case r_bestLap r of None \<Rightarrow> Some (now - r_lapStart r)
                            | Some b \<Rightarrow> Some (min b (now - r_lapStart r)))
         \<and> r_lapStart r' = now
         \<and> r_checkpoints r' = replicate (NUM_CHECKPOINTS tp) (Some False)
         \<and> r_finished r' = (r_finished r \<or> TOTAL_LAPS tp \<le> r_lap r + 1)
         \<and> evs = LapComplete (now - r_lapStart r)
                  # (if TOTAL_LAPS tp \<le> r_lap r + 1 then [RaceFinish (r_bestLap r')] else [])
      else r_lap r' = r_lap r \<and> evs = [] \<and> r_bestLap r' = r_bestLap r
         \<and> r_lapStart r' = r_lapStart r \<and> r_finished r' = r_finished r)"
proof -
  let ?r1 = "markStarted currT r"
  let ?r2 = "markCrossed tp (r_lastT r) currT ?r1"
  have inv: "race_inv tp r" using assms by (rule race_reachable_inv)
  then have st: "r_lastT r > 0.05 \<longrightarrow> r_started r" and nn: "None \<notin> set (r_checkpoints r)"
    by (simp_all add: race_inv_def)
  have eb: "(\<forall>c\<in>set (r_checkpoints r). c = Some True) \<longleftrightarrow> every_Boolean (r_checkpoints r)"
    using nn by (simp add: every_Boolean_no_holes)
  show ?thesis
  proof (cases "r_lastT r > 0.85 \<and> currT < 0.15")
    case wrap: True
    then have r1: "?r1 = r" using st by (simp add: markStarted_def)
    have "currT \<le> r_lastT r" using wrap by simp
    then have r2: "markCrossed tp (r_lastT r) currT r = r" by (rule markCrossed_backwards)
    have s: "r_started ?r1" using wrap st r1 by simp
    show ?thesis
    proof (cases "every_Boolean (r_checkpoints r)")
      case True
      then have c: "r_lastT r > 0.85 \<and> currT < 0.15 \<and> every_Boolean (r_checkpoints ?r2)"
        using wrap r1 r2 by simp
      show ?thesis
        unfolding lapTrack_completes [OF s c] r1 r2 eb
        using wrap True
        by (simp add: lapComplete_fields lapComplete_best lapComplete_events)
    next
      case False
      then have c: "\<not> (r_lastT r > 0.85 \<and> currT < 0.15 \<and> every_Boolean (r_checkpoints ?r2))"
        using r1 r2 by simp
      show ?thesis
        unfolding lapTrack_continues [OF s c] r1 r2 eb
        using False by simp
    qed
  next
    case nowrap: False
    then have c: "\<And>X. (r_lastT r > 0.85 \<and> currT < 0.15 \<and> X) = False" by blast
    show ?thesis
    proof (cases "r_started ?r1")
      case True
      have c2: "\<not> (r_lastT r > 0.85 \<and> currT < 0.15 \<and> every_Boolean (r_checkpoints ?r2))"
        using nowrap by blast
      show ?thesis
        unfolding lapTrack_continues [OF True c2] c
        by (simp add: markStarted_fields markCrossed_fields)
    next
      case False
      show ?thesis
        unfolding lapTrack_unstarted [OF False] c
        by (simp add: markStarted_fields)
    qed
  qed
qed




lemma getCheckpointTs_trackPath: "getCheckpointTs (trackPath ps) = [1/5, 2/5, 3/5, 4/5]"
  by (simp add: getCheckpointTs_def trackPath_def upt_rec)

lemma race_reachable_lapTracks:
  "race_reachable tp r \<Longrightarrow> race_reachable tp (lapTracks tp now ts r)"
  unfolding lapTracks_def
  by (induction ts arbitrary: r) (simp_all add: race_reachable.tracked)

theorem lap_completion_gate_witness:
  "race_reachable (trackPath []) (lapTracks (trackPath []) 0 [0.3, 0.5, 0.7, 0.9] (newRace (trackPath []) 0))
   \<and> (case lapTrack (trackPath []) 0.1 65000
        (lapTracks (trackPath []) 0 [0.3, 0.5, 0.7, 0.9] (newRace (trackPath []) 0))
     of (r', evs) \<Rightarrow>
        r_lap r' = 1 \<and> r_bestLap r' = Some 65000 \<and> r_lapStart r' = 65000
        \<and> \<not> r_finished r' \<and> evs = [LapComplete 65000])"
proof -
  let ?tp = "trackPath []"
  let ?r4 = "lapTracks ?tp 0 [0.3, 0.5, 0.7, 0.9] (newRace ?tp 0)"
  have h: "race_reachable ?tp ?r4"
    by (intro race_reachable_lapTracks race_reachable.entered)
  have r4: "?r4 = \<lparr>r_active = True, r_lap = 0, r_lapStart = 0, r_raceStart = 0,
         r_bestLap = None, r_checkpoints = [Some True, Some True, Some True, Some True],
         r_started = True, r_lastT = 0.9, r_finished = False\<rparr>"
    by (simp add: lapTracks_def lapTrack_def lapComplete_def markStarted_def markCrossed_def
        newRace_def every_Boolean_def js_get_def js_set_def getCheckpointTs_trackPath Let_def)
  have tl: "TOTAL_LAPS ?tp = 3" "NUM_CHECKPOINTS ?tp = 4" by (simp_all add: trackPath_def)
  show ?thesis
    using lap_completion_gate [OF h, of "0.1" 65000] h
    unfolding r4
    by (simp add: tl split_beta)
qed


section \<open>The driving step and the lap gate\<close>


lemma tickDriving_step:
  "activeVehicle s = Some (i, v) \<Longrightarrow> \<not> r_finished (race s) \<Longrightarrow>
   tickDriving tp dt k False now s = Inr (driveStep tp dt k now i v s)"
  by (simp add: tickDriving_def)

lemma driveStep_race:
  "race (driveStep tp dt k now i v s)
     = fst (driveLap tp (Vector3 (vx (v_pos v)) 0 (vz (v_pos v))) now (race s))"
  "fired (driveStep tp dt k now i v s)
     = fired s @ snd (driveLap tp (Vector3 (vx (v_pos v)) 0 (vz (v_pos v))) now (race s))"
  by (simp_all add: driveStep_def Let_def split_beta)

lemma driveLap_inside:
  "num_less (n_distance (getNearestTrackInfo tp p)) (TRACK_WIDTH tp * 1.2) \<Longrightarrow>
   driveLap tp p now r = lapTrack tp (n_t (getNearestTrackInfo tp p)) now r"
  by (simp add: driveLap_def Let_def)

lemma driveLap_outside:
  "\<not> num_less (n_distance (getNearestTrackInfo tp p)) (TRACK_WIDTH tp * 1.2) \<Longrightarrow>
   driveLap tp p now r = (r, [])"
  by (simp add: driveLap_def Let_def)

lemma lapTrack_lastT: "r_lastT (fst (lapTrack tp currT now r)) = currT"
  by (simp add: lapTrack_def Let_def split_beta)

lemma tickDrivingSeq_finished:
  "r_finished (race s) \<Longrightarrow> tickDrivingSeq tp steps s = Inr s"
  by (induction steps) (auto simp: tickDriving_def bindE_def)

lemma exitVehicle_result:
  "activeVehicle s = Some (i, v) \<Longrightarrow>
   \<exists>s'. exitVehicle tp s = Inr s' \<and> modeRef s' = walking \<and> activeIdx s' = None
        \<and> \<not> r_active (race s') \<and> v_speed (vehicles s' ! i) = 0"
  by (auto simp: exitVehicle_def Let_def activeVehicle_def split: option.splits if_splits)

text \<open>
  Claim C10.  Once the finished flag of the race record is set, a driving step without the
  interact key returns the controller as it was: position, rotation and speed of the
  active vehicle, the boost meter and the race record are unchanged, for one step and for
  any number of successive steps.  With the interact key the step is the exit from the
  vehicle, which ends in walking mode with no active vehicle.
\<close>

theorem finished_session_frozen:
  assumes "r_finished (race s)"
  shows "tickDriving tp dt k False now s = Inr s
     \<and> tickDrivingSeq tp steps s = Inr s
     \<and> tickDriving tp dt k True now s = exitVehicle tp s
     \<and> (\<forall>i v. activeVehicle s = Some (i, v) \<longrightarrow>
          (\<exists>s'. tickDriving tp dt k True now s = Inr s' \<and> modeRef s' = walking
               \<and> activeIdx s' = None \<and> \<not> r_active (race s')))"
proof -
  have a: "tickDriving tp dt k False now s = Inr s" using assms by (simp add: tickDriving_def)
  have b: "tickDrivingSeq tp steps s = Inr s" using assms by (rule tickDrivingSeq_finished)
  have c: "tickDriving tp dt k True now s = exitVehicle tp s" by (simp add: tickDriving_def)
  have d: "\<forall>i v. activeVehicle s = Some (i, v) \<longrightarrow>
          (\<exists>s'. tickDriving tp dt k True now s = Inr s' \<and> modeRef s' = walking
               \<and> activeIdx s' = None \<and> \<not> r_active (race s'))"
    unfolding c using exitVehicle_result by blast
  show ?thesis using a b c d by blast
qed

text \<open>
  Claim C2, as amended.  In a driving step that is neither an exit nor in a finished
  session, the lap tracker runs (checkpoint marking, lap completion and the update of the
  stored parameter) exactly when the planar distance from the position at the start of the
  step to the nearest sample is less than 1.2 times the track width; otherwise the race
  record is unchanged and no callback fires.
\<close>

theorem lap_gate_full_width:
  assumes "activeVehicle s = Some (i, v)" and "\<not> r_finished (race s)"
  shows "\<exists>s'. tickDriving tp dt k False now s = Inr s'
     \<and> (let nearest = getNearestTrackInfo tp (Vector3 (vx (v_pos v)) 0 (vz (v_pos v)))
        in if num_less (n_distance nearest) (1.2 * TRACK_WIDTH tp)
           then race s' = fst (lapTrack tp (n_t nearest) now (race s))
              \<and> fired s' = fired s @ snd (lapTrack tp (n_t nearest) now (race s))
              \<and> r_lastT (race s') = n_t nearest
           else race s' = race s \<and> fired s' = fired s)"
proof -
  let ?p = "Vector3 (vx (v_pos v)) 0 (vz (v_pos v))"
  have 1: "tickDriving tp dt k False now s = Inr (driveStep tp dt k now i v s)"
    using assms by (rule tickDriving_step)
  have c: "1.2 * TRACK_WIDTH tp = TRACK_WIDTH tp * 1.2" by simp
  show ?thesis
  proof (cases "num_less (n_distance (getNearestTrackInfo tp ?p)) (TRACK_WIDTH tp * 1.2)")
    case True
    show ?thesis
      unfolding 1 c using True
      by (simp add: driveStep_race driveLap_inside [OF True] lapTrack_lastT Let_def)
  next
    case False
    show ?thesis
      unfolding 1 c using False
      by (simp add: driveStep_race driveLap_outside [OF False] Let_def)
  qed
qed



lemma sqrt_225: "sqrt 225 = 15"
  by (rule real_sqrt_unique) simp_all

lemma inVehicle_0:
  "activeVehicle (inVehicle tp 0 p rot speed)
     = Some (0, carRed\<lparr>v_pos := p, v_rot := rot, v_speed := speed\<rparr>)"
  "race (inVehicle tp 0 p rot speed) = newRace tp 0"
  "modeRef (inVehicle tp 0 p rot speed) = driving"
  "fired (inVehicle tp 0 p rot speed) = []"
  "boostMeter (inVehicle tp 0 p rot speed) = 100"
  "carVelY (inVehicle tp 0 p rot speed) = 0"
  "carOnGround (inVehicle tp 0 p rot speed) = True"
  "interactPressed (inVehicle tp 0 p rot speed) = False"
  "length (vehicles (inVehicle tp 0 p rot speed)) = 7"
  by (simp_all add: inVehicle_def initialController_def makeVehicles_def activeVehicle_def
      carRed_def mkVehicle_def Let_def)

lemma nearest_farTrack:
  "getNearestTrackInfo farTrack (Vector3 12 0 10)
     = \<lparr>n_point = Some (Vector3 12 0 25), n_t = 1 / 500, n_distance = Num 15\<rparr>"
  by (simp add: getNearestTrackInfo_def farTrack_def trackPath_def nth_opt_def Let_def sqrt_225)


lemma carRed_parked: "carRed\<lparr>v_pos := Vector3 12 0 10, v_rot := 0, v_speed := 0\<rparr> = carRed"
  by (simp add: carRed_def mkVehicle_def)

lemma newRace_fields:
  "r_lastT (newRace tp now) = 0" "\<not> r_finished (newRace tp now)" "r_lap (newRace tp now) = 0"
  "\<not> r_started (newRace tp now)"
  by (simp_all add: newRace_def)

text \<open>
  The claim as stated puts the gate at 1.2 times half the track width, 10.8 for a width of
  18.  The red car 15 units from the nearest sample is outside that gate, and the step
  still stores the parameter of the nearest sample.
\<close>

theorem lap_gate_half_width_counterexample:
  "n_distance (getNearestTrackInfo farTrack (Vector3 12 0 10)) = Num 15
   \<and> \<not> (15 :: real) < 1.2 * (TRACK_WIDTH farTrack / 2)
   \<and> r_lastT (race (inVehicle farTrack 0 (Vector3 12 0 10) 0 0)) = 0
   \<and> tickDriving farTrack 0.05 noKeys False 0 (inVehicle farTrack 0 (Vector3 12 0 10) 0 0)
       = Inr (driveStep farTrack 0.05 noKeys 0 0 carRed (inVehicle farTrack 0 (Vector3 12 0 10) 0 0))
   \<and> r_lastT (race (driveStep farTrack 0.05 noKeys 0 0 carRed
                       (inVehicle farTrack 0 (Vector3 12 0 10) 0 0))) = 1 / 500"
proof -
  let ?s = "inVehicle farTrack 0 (Vector3 12 0 10) 0 0"
  have av: "activeVehicle ?s = Some (0, carRed)"
    by (simp add: inVehicle_0 carRed_parked)
  have nf: "\<not> r_finished (race ?s)" by (simp add: inVehicle_0 newRace_fields)
  have pos: "Vector3 (vx (v_pos carRed)) 0 (vz (v_pos carRed)) = Vector3 12 0 10"
    by (simp add: carRed_def mkVehicle_def)
  have w: "TRACK_WIDTH farTrack = 18" by (simp add: farTrack_def trackPath_def)
  have inside: "num_less (n_distance (getNearestTrackInfo farTrack (Vector3 12 0 10)))
                  (TRACK_WIDTH farTrack * 1.2)"
    by (simp add: nearest_farTrack w)
  have "r_lastT (race (driveStep farTrack 0.05 noKeys 0 0 carRed ?s)) = 1 / 500"
    unfolding driveStep_race pos driveLap_inside [OF inside] lapTrack_lastT
    by (simp add: nearest_farTrack)
  then show ?thesis
    using tickDriving_step [OF av nf, of farTrack "0.05" noKeys 0]
    by (simp add: nearest_farTrack w inVehicle_0 newRace_fields)
qed

theorem lap_gate_full_width_witness:
  "activeVehicle (inVehicle farTrack 0 (Vector3 12 0 10) 0 0) = Some (0, carRed)
   \<and> \<not> r_finished (race (inVehicle farTrack 0 (Vector3 12 0 10) 0 0))
   \<and> (\<exists>s'. tickDriving farTrack 0.05 noKeys False 0 (inVehicle farTrack 0 (Vector3 12 0 10) 0 0)
             = Inr s' \<and> r_lastT (race s') = 1 / 500)"
proof -
  let ?s = "inVehicle farTrack 0 (Vector3 12 0 10) 0 0"
  have av: "activeVehicle ?s = Some (0, carRed)"
    by (simp add: inVehicle_0 carRed_parked)
  have nf: "\<not> r_finished (race ?s)" by (simp add: inVehicle_0 newRace_fields)
  have pos: "Vector3 (vx (v_pos carRed)) 0 (vz (v_pos carRed)) = Vector3 12 0 10"
    by (simp add: carRed_def mkVehicle_def)
  have w: "TRACK_WIDTH farTrack = 18" by (simp add: farTrack_def trackPath_def)
  show ?thesis
    using lap_gate_full_width [OF av nf, of farTrack "0.05" noKeys 0] av nf
    unfolding pos
    by (auto simp add: nearest_farTrack w Let_def)
qed

theorem finished_session_frozen_witness:
  "r_finished (race (finishedSession farTrack))
   \<and> tickDriving farTrack 0.05 noKeys False 0 (finishedSession farTrack)
       = Inr (finishedSession farTrack)
   \<and> tickDriving farTrack 0.05 noKeys True 0 (finishedSession farTrack)
       = exitVehicle farTrack (finishedSession farTrack)"
proof -
  have f: "r_finished (race (finishedSession farTrack))"
    by (simp add: finishedSession_def)
  show ?thesis
    using finished_session_frozen [OF f, of farTrack "0.05" noKeys 0 "[]"] f by simp
qed

section \<open>The bullet pool\<close>
















section \<open>Aerial targets\<close>


lemma hit_scan_length: "length (fst (hit_scan p ts)) = length ts"
  by (induction ts) (simp_all add: Let_def split_beta)

lemma hit_scan_nth:
  "j < length ts \<Longrightarrow>
   fst (hit_scan p ts) ! j = ts ! j
   \<or> (t_alive (ts ! j) \<and> fst (hit_scan p ts) ! j = shot (ts ! j))"
proof (induction ts arbitrary: j)
  case Nil
  then show ?case by simp
next
  case (Cons t ts)
  show ?case
  proof (cases j)
    case 0
    then show ?thesis by (simp add: Let_def split_beta shot_def)
  next
    case (Suc j')
    then have "j' < length ts" using Cons.prems by simp
    from Cons.IH [OF this] Suc show ?thesis by (simp add: Let_def split_beta)
  qed
qed

lemma tickBullet_targets:
  "length (snd (tickBullet dt b ts)) = length ts"
  "j < length ts \<Longrightarrow>
   snd (tickBullet dt b ts) ! j = ts ! j
   \<or> (t_alive (ts ! j) \<and> snd (tickBullet dt b ts) ! j = shot (ts ! j))"
  using hit_scan_length [of "addScaledVector (b_pos b) (b_vel b) dt" ts]
    hit_scan_nth [of j ts "addScaledVector (b_pos b) (b_vel b) dt"]
  by (simp_all add: tickBullet_def Let_def split_beta)

lemma shot_dead: "\<not> t_alive (shot t)" "t_respawnTimer (shot t) = 3"
  by (simp_all add: shot_def)

lemma tickBullets_loop_targets:
  "length (snd (tickBullets_loop dt bs ts)) = length ts
   \<and> (j < length ts \<longrightarrow>
        snd (tickBullets_loop dt bs ts) ! j = ts ! j
        \<or> (t_alive (ts ! j) \<and> snd (tickBullets_loop dt bs ts) ! j = shot (ts ! j)))"
proof (induction bs arbitrary: ts)
  case Nil
  show ?case by simp
next
  case (Cons b bs)
  let ?ts1 = "snd (tickBullet dt b ts)"
  have e: "snd (tickBullets_loop dt (b # bs) ts) = snd (tickBullets_loop dt bs ?ts1)"
    by (simp add: split_beta)
  have l1: "length ?ts1 = length ts" by (rule tickBullet_targets)
  note ih = Cons.IH [of ?ts1]
  show ?case
  proof (intro conjI impI)
    show "length (snd (tickBullets_loop dt (b # bs) ts)) = length ts"
      unfolding e using ih l1 by simp
  next
    assume j: "j < length ts"
    then have j1: "j < length ?ts1" using l1 by simp
    from ih j1 have a: "snd (tickBullets_loop dt bs ?ts1) ! j = ?ts1 ! j
        \<or> (t_alive (?ts1 ! j) \<and> snd (tickBullets_loop dt bs ?ts1) ! j = shot (?ts1 ! j))"
      by blast
    from tickBullet_targets(2) [OF j, of dt b]
    have b: "?ts1 ! j = ts ! j \<or> (t_alive (ts ! j) \<and> ?ts1 ! j = shot (ts ! j))" .
    show "snd (tickBullets_loop dt (b # bs) ts) ! j = ts ! j
        \<or> (t_alive (ts ! j) \<and> snd (tickBullets_loop dt (b # bs) ts) ! j = shot (ts ! j))"
      unfolding e using a b shot_dead(1) by metis
  qed
qed

lemma tickBullets_targets:
  "length (targets (tickBullets dt s)) = length (targets s)"
  "j < length (targets s) \<Longrightarrow>
   targets (tickBullets dt s) ! j = targets s ! j
   \<or> (t_alive (targets s ! j) \<and> targets (tickBullets dt s) ! j = shot (targets s ! j))"
  using tickBullets_loop_targets [of dt "bullets s" "targets s" j]
  by (simp_all add: tickBullets_def split_beta)

lemma projectileFrame_targets:
  "length (targets (projectileFrame dt s)) = length (targets s)"
  "j < length (targets s) \<Longrightarrow>
   targets (projectileFrame dt s) ! j = tickTarget dt (targets (tickBullets dt s) ! j)"
  by (simp_all add: projectileFrame_def tickTargets_def tickMuzzleFlash_def tickBullets_targets)

lemma projectileFrame_dead:
  assumes "j < length (targets s)" "\<not> t_alive (targets s ! j)"
  shows "targets (projectileFrame dt s) ! j = tickTarget dt (targets s ! j)"
  using tickBullets_targets(2) [OF assms(1), of dt] assms
  by (simp add: projectileFrame_targets)

lemma projectileFrames_append:
  "projectileFrames (xs @ ys) s = projectileFrames ys (projectileFrames xs s)"
  by (induction xs arbitrary: s) simp_all

lemma projectileFrames_length:
  "length (targets (projectileFrames ds s)) = length (targets s)"
  by (induction ds arbitrary: s) (simp_all add: projectileFrame_targets)

subsection \<open>The rounded countdown\<close>

lemma ilog_ge_bounds: "1 \<le> x \<Longrightarrow> 2 powi (ilog_ge x) \<le> x \<and> x < 2 powi (ilog_ge x + 1)"
proof (induction x rule: ilog_ge.induct)
  case (1 x)
  show ?case
  proof (cases "2 \<le> x")
    case True
    have e: "ilog_ge x = ilog_ge (x / 2) + 1" using True by (subst ilog_ge.simps) simp
    have "1 \<le> x / 2" using True by simp
    from "1.IH" [OF True this]
    have "2 powi (ilog_ge (x / 2)) \<le> x / 2" "x / 2 < 2 powi (ilog_ge (x / 2) + 1)" by simp_all
    then show ?thesis unfolding e by (simp add: power_int_add)
  next
    case False
    then have e: "ilog_ge x = 0" by (subst ilog_ge.simps) simp
    show ?thesis unfolding e using False "1.prems" by simp
  qed
qed

lemma ilog_lt_bounds:
  "0 < x \<Longrightarrow> x < 1 \<Longrightarrow> 2 powi (ilog_lt x) \<le> x \<and> x < 2 powi (ilog_lt x + 1)"
proof (induction x rule: ilog_lt.induct)
  case (1 x)
  have e: "ilog_lt x = ilog_lt (x * 2) - 1" using "1.prems" by (subst ilog_lt.simps) simp
  show ?case
  proof (cases "x * 2 < 1")
    case True
    have "0 < x \<and> x < 1" "0 < x * 2" using "1.prems" by simp_all
    from "1.IH" [OF this True]
    have "2 powi (ilog_lt (x * 2)) \<le> x * 2" "x * 2 < 2 powi (ilog_lt (x * 2) + 1)" by simp_all
    then show ?thesis unfolding e by (simp add: power_int_add power_int_diff)
  next
    case False
    then have "ilog_lt (x * 2) = 0" by (subst ilog_lt.simps) simp
    then show ?thesis unfolding e using False "1.prems" by (simp add: power_int_minus)
  qed
qed

text \<open>The exponent found is the binade of the number.\<close>

lemma binade_bounds:
  "x \<noteq> 0 \<Longrightarrow> 2 powi (binade x) \<le> \<bar>x\<bar> \<and> \<bar>x\<bar> < 2 powi (binade x + 1)"
  using ilog_ge_bounds [of "\<bar>x\<bar>"] ilog_lt_bounds [of "\<bar>x\<bar>"]
  by (simp add: binade_def)

lemma roundTiesToEven_near: "\<bar>of_int (roundTiesToEven m) - m\<bar> \<le> 1 / 2"
proof -
  have "of_int \<lfloor>m\<rfloor> \<le> m" "m < of_int \<lfloor>m\<rfloor> + 1" by linarith+
  then show ?thesis unfolding roundTiesToEven_def Let_def by (auto simp add: abs_le_iff)
qed

text \<open>Two values: 3 is a double, and 0.05 is not.\<close>

lemma fround_examples:
  "fround 3 = 3"
  "fround 0.05 = 3602879701896397 / 2 ^ 56"
  by code_simp+

text \<open>The relative error of one rounding is at most \<open>2\<^sup>-\<^sup>5\<^sup>3\<close>.\<close>

lemma fround_error: "\<bar>fround x - x\<bar> \<le> \<bar>x\<bar> / 2 ^ 53"
proof (cases "x = 0")
  case True
  then show ?thesis by (simp add: fround_def)
next
  case False
  define ulp :: real where "ulp = 2 powi (binade x - 52)"
  have p: "0 < ulp" unfolding ulp_def by simp
  have e: "fround x = of_int (roundTiesToEven (x / ulp)) * ulp"
    using False by (simp add: fround_def ulp_def Let_def)
  have "fround x - x = (of_int (roundTiesToEven (x / ulp)) - x / ulp) * ulp"
    unfolding e using p by (simp add: field_simps)
  then have "\<bar>fround x - x\<bar> = \<bar>of_int (roundTiesToEven (x / ulp)) - x / ulp\<bar> * ulp"
    using p by (simp add: abs_mult)
  also have "\<dots> \<le> 1 / 2 * ulp"
    using roundTiesToEven_near [of "x / ulp"] p by (intro mult_right_mono) simp_all
  also have "ulp = 2 powi (binade x) / 2 ^ 52"
    unfolding ulp_def by (simp add: power_int_diff)
  also have "1 / 2 * (2 powi (binade x) / 2 ^ 52) \<le> 1 / 2 * (\<bar>x\<bar> / 2 ^ 52)"
    using binade_bounds [OF False] by (intro mult_left_mono divide_right_mono) simp_all
  finally show ?thesis by simp
qed

lemma fround_sign: "fround x \<le> 0 \<longleftrightarrow> x \<le> 0"
proof -
  have "(1 :: real) / 2 ^ 53 \<le> 1 / 2" by simp
  then have "\<bar>x\<bar> * (1 / 2 ^ 53) \<le> \<bar>x\<bar> * (1 / 2)" by (intro mult_left_mono) simp_all
  then have h: "\<bar>x\<bar> / 2 ^ 53 \<le> \<bar>x\<bar> / 2" by simp
  have e: "\<bar>fround x - x\<bar> \<le> \<bar>x\<bar> / 2" using fround_error [of x] h by (rule order_trans)
  show ?thesis
  proof (cases "x \<le> 0")
    case True
    then show ?thesis using e by linarith
  next
    case False
    then show ?thesis using e by linarith
  qed
qed

lemma fround_error_4:
  assumes "\<bar>y\<bar> \<le> 4"
  shows "\<bar>fround y - y\<bar> \<le> 1 / 2 ^ 51"
proof -
  have "\<bar>y\<bar> / 2 ^ 53 \<le> 4 / 2 ^ 53" using assms by (intro divide_right_mono) simp_all
  also have "(4 :: real) / 2 ^ 53 = 1 / 2 ^ 51" by simp
  finally show ?thesis using fround_error [of y] by (rule order_trans [rotated])
qed

lemma tickTarget_dead:
  assumes "\<not> t_alive t"
  shows "t_respawnTimer (tickTarget d t) = fround (t_respawnTimer t - d)"
    and "t_alive (tickTarget d t) \<longleftrightarrow> t_respawnTimer t - d \<le> 0"
  using assms by (simp_all add: tickTarget_def Let_def fround_sign)

text \<open>
  One frame of a dead target whose countdown \<open>t\<close> is within \<open>E\<close> of \<open>e\<close>, where \<open>u\<close> bounds
  the error of one rounding: the new countdown is within \<open>E + u\<close> of \<open>e - d\<close>.
\<close>

lemma countdown_step:
  fixes t e d E u :: real
  assumes U: "\<And>y. \<bar>y\<bar> \<le> 4 \<Longrightarrow> \<bar>fround y - y\<bar> \<le> u"
    and t: "0 < t" "\<bar>t - e\<bar> \<le> E" and e: "e \<le> 3" and E: "E \<le> 1"
    and d: "0 \<le> d" "d \<le> 1"
  shows "\<bar>fround (t - d) - (e - d)\<bar> \<le> E + u"
proof -
  have "t \<le> 4" using t(2) e E by linarith
  moreover have "d \<le> 4" using d(2) by simp
  ultimately have "\<bar>t - d\<bar> \<le> 4" using t(1) d(1) by linarith
  then have r: "\<bar>fround (t - d) - (t - d)\<bar> \<le> u" by (rule U)
  show ?thesis using r t(2) by linarith
qed

text \<open>
  A dead target stays dead, and its countdown follows the exact one, as long as the frame
  deltas stay below the countdown by the accumulated rounding error.
\<close>

lemma countdown_dead:
  fixes e E u :: real
  assumes U: "\<And>y. \<bar>y\<bar> \<le> 4 \<Longrightarrow> \<bar>fround y - y\<bar> \<le> u" and u: "0 \<le> u"
    and "j < length (targets s)" and "\<not> t_alive (targets s ! j)"
    and "0 < t_respawnTimer (targets s ! j)"
    and "\<bar>t_respawnTimer (targets s ! j) - e\<bar> \<le> E" and "e \<le> 3"
    and "\<forall>d\<in>set ds. 0 \<le> d \<and> d \<le> 1"
    and "E + real (length ds) * u \<le> 1"
    and "sum_list ds < e - (E + real (length ds) * u)"
  shows "\<not> t_alive (targets (projectileFrames ds s) ! j)
     \<and> \<bar>t_respawnTimer (targets (projectileFrames ds s) ! j) - (e - sum_list ds)\<bar>
         \<le> E + real (length ds) * u"
  using assms(3-)
proof (induction ds arbitrary: s e E)
  case Nil
  then show ?case by simp
next
  case (Cons d ds)
  let ?s1 = "projectileFrame d s"
  let ?t = "t_respawnTimer (targets s ! j)"
  define nu where "nu = real (length ds) * u"
  have nu: "0 \<le> nu" unfolding nu_def using u by simp
  have len: "real (length (d # ds)) * u = nu + u" unfolding nu_def by (simp add: algebra_simps)
  have d: "0 \<le> d" "d \<le> 1" using Cons.prems(6) by simp_all
  have nn: "0 \<le> sum_list ds" using Cons.prems(6) by (intro sum_list_nonneg) simp
  have sm: "sum_list (d # ds) = d + sum_list ds" by simp
  have E1: "E \<le> 1" using Cons.prems(7) nu u unfolding len by linarith
  have t1: "targets ?s1 ! j = tickTarget d (targets s ! j)"
    using Cons.prems(1,2) by (rule projectileFrame_dead)
  have pos: "0 < ?t - d"
    using Cons.prems(4,8) nn nu u unfolding len sm by linarith
  have dead1: "\<not> t_alive (targets ?s1 ! j)"
    unfolding t1 using tickTarget_dead(2) [OF Cons.prems(2), of d] pos by simp
  have timer1: "t_respawnTimer (targets ?s1 ! j) = fround (?t - d)"
    unfolding t1 using Cons.prems(2) by (rule tickTarget_dead(1))
  have tpos: "0 < t_respawnTimer (targets ?s1 ! j)"
    unfolding timer1 using pos fround_sign [of "?t - d"] by simp
  have err: "\<bar>t_respawnTimer (targets ?s1 ! j) - (e - d)\<bar> \<le> E + u"
    unfolding timer1 using U Cons.prems(3,4,5) E1 d by (rule countdown_step)
  have j1: "j < length (targets ?s1)" using Cons.prems(1) by (simp add: projectileFrame_targets)
  have e1: "e - d \<le> 3" using Cons.prems(5) d by simp
  have rest: "\<forall>d\<in>set ds. 0 \<le> d \<and> d \<le> 1" using Cons.prems(6) by simp
  have le1: "E + u + real (length ds) * u \<le> 1"
    using Cons.prems(7) unfolding len nu_def by linarith
  have lt: "sum_list ds < e - d - (E + u + real (length ds) * u)"
    using Cons.prems(8) unfolding len sm nu_def by linarith
  from Cons.IH [OF j1 dead1 tpos err e1 rest le1 lt]
  have "\<not> t_alive (targets (projectileFrames ds ?s1) ! j)"
    "\<bar>t_respawnTimer (targets (projectileFrames ds ?s1) ! j) - (e - d - sum_list ds)\<bar>
       \<le> E + u + nu" unfolding nu_def by simp_all
  then show ?case unfolding len sm by (simp add: algebra_simps)
qed

text \<open>
  A dead target has come alive at the end of some frame once the frame deltas exceed the
  countdown by the accumulated rounding error.
\<close>

lemma countdown_alive:
  fixes e E u :: real
  assumes U: "\<And>y. \<bar>y\<bar> \<le> 4 \<Longrightarrow> \<bar>fround y - y\<bar> \<le> u" and u: "0 \<le> u"
    and "j < length (targets s)" and "\<not> t_alive (targets s ! j)"
    and "0 < t_respawnTimer (targets s ! j)"
    and "\<bar>t_respawnTimer (targets s ! j) - e\<bar> \<le> E" and "e \<le> 3"
    and "\<forall>d\<in>set ds. 0 \<le> d \<and> d \<le> 1"
    and "E + real (length ds) * u \<le> 1"
    and "e + (E + real (length ds) * u) \<le> sum_list ds"
  shows "\<exists>k < length ds. t_alive (targets (projectileFrames (take (Suc k) ds) s) ! j)"
  using assms(3-)
proof (induction ds arbitrary: s e E)
  case Nil
  have "False" using Nil.prems(3,4,8) by simp
  then show ?case ..
next
  case (Cons d ds)
  let ?s1 = "projectileFrame d s"
  let ?t = "t_respawnTimer (targets s ! j)"
  define nu where "nu = real (length ds) * u"
  have nu: "0 \<le> nu" unfolding nu_def using u by simp
  have len: "real (length (d # ds)) * u = nu + u" unfolding nu_def by (simp add: algebra_simps)
  have d: "0 \<le> d" "d \<le> 1" using Cons.prems(6) by simp_all
  have sm: "sum_list (d # ds) = d + sum_list ds" by simp
  have E1: "E \<le> 1" using Cons.prems(7) nu u unfolding len by linarith
  have t1: "targets ?s1 ! j = tickTarget d (targets s ! j)"
    using Cons.prems(1,2) by (rule projectileFrame_dead)
  show ?case
  proof (cases "?t - d \<le> 0")
    case True
    then have "t_alive (targets ?s1 ! j)"
      unfolding t1 using tickTarget_dead(2) [OF Cons.prems(2), of d] by simp
    then have "t_alive (targets (projectileFrames (take (Suc 0) (d # ds)) s) ! j)" by simp
    then show ?thesis by (intro exI [of _ 0]) simp
  next
    case False
    then have pos: "0 < ?t - d" by simp
    have dead1: "\<not> t_alive (targets ?s1 ! j)"
      unfolding t1 using tickTarget_dead(2) [OF Cons.prems(2), of d] pos by simp
    have timer1: "t_respawnTimer (targets ?s1 ! j) = fround (?t - d)"
      unfolding t1 using Cons.prems(2) by (rule tickTarget_dead(1))
    have tpos: "0 < t_respawnTimer (targets ?s1 ! j)"
      unfolding timer1 using pos fround_sign [of "?t - d"] by simp
    have err: "\<bar>t_respawnTimer (targets ?s1 ! j) - (e - d)\<bar> \<le> E + u"
      unfolding timer1 using U Cons.prems(3,4,5) E1 d by (rule countdown_step)
    have j1: "j < length (targets ?s1)"
      using Cons.prems(1) by (simp add: projectileFrame_targets)
    have e1: "e - d \<le> 3" using Cons.prems(5) d by simp
    have rest: "\<forall>d\<in>set ds. 0 \<le> d \<and> d \<le> 1" using Cons.prems(6) by simp
    have le1: "E + u + real (length ds) * u \<le> 1"
      using Cons.prems(7) unfolding len nu_def by linarith
    have ge: "e - d + (E + u + real (length ds) * u) \<le> sum_list ds"
      using Cons.prems(8) unfolding len sm nu_def by linarith
    from Cons.IH [OF j1 dead1 tpos err e1 rest le1 ge]
    obtain k where k: "k < length ds"
      "t_alive (targets (projectileFrames (take (Suc k) ds) ?s1) ! j)" by blast
    then have "Suc k < length (d # ds)"
      "t_alive (targets (projectileFrames (take (Suc (Suc k)) (d # ds)) s) ! j)" by simp_all
    then show ?thesis by blast
  qed
qed

text \<open>The hit frame: the target is shot by the bullets and then ticked in the same frame.\<close>

lemma hit_frame:
  assumes "j < length (targets s)" and "t_alive (targets s ! j)"
    and "\<not> t_alive (targets (tickBullets d0 s) ! j)" and "0 \<le> d0" and "d0 \<le> 1"
  shows "t_respawnTimer (targets (tickBullets d0 s) ! j) = 3"
    and "\<not> t_alive (targets (projectileFrame d0 s) ! j)"
    and "t_respawnTimer (targets (projectileFrame d0 s) ! j) = fround (3 - d0)"
    and "0 < t_respawnTimer (targets (projectileFrame d0 s) ! j)"
    and "\<bar>t_respawnTimer (targets (projectileFrame d0 s) ! j) - (3 - d0)\<bar> \<le> 1 / 2 ^ 51"
proof -
  have hit: "targets (tickBullets d0 s) ! j = shot (targets s ! j)"
    using tickBullets_targets(2) [OF assms(1), of d0] assms(2,3) by auto
  show a: "t_respawnTimer (targets (tickBullets d0 s) ! j) = 3"
    unfolding hit by (rule shot_dead)
  have t1: "targets (projectileFrame d0 s) ! j = tickTarget d0 (shot (targets s ! j))"
    using assms(1) hit by (simp add: projectileFrame_targets)
  have pos: "0 < (3 :: real) - d0" using assms(5) by simp
  show "\<not> t_alive (targets (projectileFrame d0 s) ! j)"
    unfolding t1 using tickTarget_dead(2) [OF shot_dead(1), of d0 "targets s ! j"] pos
    by (simp add: shot_dead)
  show b: "t_respawnTimer (targets (projectileFrame d0 s) ! j) = fround (3 - d0)"
    unfolding t1 using tickTarget_dead(1) [OF shot_dead(1), of d0 "targets s ! j"]
    by (simp add: shot_dead)
  show "0 < t_respawnTimer (targets (projectileFrame d0 s) ! j)"
    unfolding b using pos fround_sign [of "3 - d0"] by simp
  have "\<bar>(3 :: real) - d0\<bar> \<le> 4" using assms(4,5) by simp
  then show "\<bar>t_respawnTimer (targets (projectileFrame d0 s) ! j) - (3 - d0)\<bar> \<le> 1 / 2 ^ 51"
    unfolding b by (rule fround_error_4)
qed

lemma rounding_unit: "(0 :: real) \<le> 1 / 2 ^ 51"
  by simp

lemma accumulated_error:
  "1 / 2 ^ 51 + real n * (1 / 2 ^ 51) = (real n + 1) / (2 ^ 51 :: real)"
  by (simp add: add_divide_distrib)

text \<open>
  Claim C8, as amended.  A target hit by a bullet during a frame with delta \<open>d0\<close> is marked
  dead with a countdown of 3 at the hit.  Every frame in which the target is dead, the hit
  frame first, replaces the countdown by the double nearest to the countdown minus the
  frame delta, and makes the target alive when that is not positive.  For frame deltas
  within \<open>[0, 1]\<close>, where the clamp of the frame loop to 0.05 keeps them, the rounding
  errors of \<open>n\<close> frames add up to at most \<open>n / 2\<^sup>5\<^sup>1\<close>.  So the target is still dead at the
  end of a frame as long as the deltas accumulated since the start of the hit frame are
  below \<open>3 - n / 2\<^sup>5\<^sup>1\<close>, the countdown then being within \<open>n / 2\<^sup>5\<^sup>1\<close> of 3 minus the
  accumulated deltas, and it has become alive at the end of some frame after the hit frame
  when they have reached \<open>3 + n / 2\<^sup>5\<^sup>1\<close>.  Counted from the end of the hit frame the
  respawn is therefore up to \<open>d0\<close> earlier than 3 seconds.
\<close>

theorem target_respawn_countdown:
  assumes "j < length (targets s)" and "t_alive (targets s ! j)"
    and "\<not> t_alive (targets (tickBullets d0 s) ! j)"
    and "0 \<le> d0" and "d0 \<le> 1" and "\<forall>d\<in>set ds. 0 \<le> d \<and> d \<le> 1"
    and "real (length ds) + 1 \<le> 2 ^ 51"
  shows "t_respawnTimer (targets (tickBullets d0 s) ! j) = TARGET_RESPAWN_TIME
     \<and> \<not> t_alive (targets (projectileFrame d0 s) ! j)
     \<and> t_respawnTimer (targets (projectileFrame d0 s) ! j) = fround (TARGET_RESPAWN_TIME - d0)
     \<and> (\<forall>s' d. j < length (targets s') \<and> \<not> t_alive (targets s' ! j) \<longrightarrow>
           t_respawnTimer (targets (projectileFrame d s') ! j)
             = fround (t_respawnTimer (targets s' ! j) - d)
           \<and> (t_alive (targets (projectileFrame d s') ! j)
                \<longleftrightarrow> fround (t_respawnTimer (targets s' ! j) - d) \<le> 0))
     \<and> (d0 + sum_list ds < TARGET_RESPAWN_TIME - (real (length ds) + 1) / 2 ^ 51 \<longrightarrow>
           \<not> t_alive (targets (projectileFrames (d0 # ds) s) ! j)
           \<and> \<bar>t_respawnTimer (targets (projectileFrames (d0 # ds) s) ! j)
                - (TARGET_RESPAWN_TIME - (d0 + sum_list ds))\<bar>
               \<le> (real (length ds) + 1) / 2 ^ 51)
     \<and> (TARGET_RESPAWN_TIME + (real (length ds) + 1) / 2 ^ 51 \<le> d0 + sum_list ds \<longrightarrow>
           (\<exists>k < length ds.
              t_alive (targets (projectileFrames (d0 # take (Suc k) ds) s) ! j)))"
proof -
  let ?s1 = "projectileFrame d0 s"
  define eps :: real where "eps = (real (length ds) + 1) / 2 ^ 51"
  note h = hit_frame [OF assms(1,2,3,4,5)]
  have j1: "j < length (targets ?s1)" using assms(1) by (simp add: projectileFrame_targets)
  have e: "(3 :: real) - d0 \<le> 3" using assms(4) by simp
  have acc: "1 / 2 ^ 51 + real (length ds) * (1 / 2 ^ 51) = eps"
    unfolding eps_def by (rule accumulated_error)
  have "(real (length ds) + 1) / 2 ^ 51 \<le> (2 ^ 51 :: real) / 2 ^ 51"
    using assms(7) by (rule divide_right_mono) simp
  then have len: "1 / 2 ^ 51 + real (length ds) * (1 / 2 ^ 51) \<le> (1 :: real)"
    unfolding acc eps_def by simp
  have step: "\<forall>s' d. j < length (targets s') \<and> \<not> t_alive (targets s' ! j) \<longrightarrow>
           t_respawnTimer (targets (projectileFrame d s') ! j)
             = fround (t_respawnTimer (targets s' ! j) - d)
           \<and> (t_alive (targets (projectileFrame d s') ! j)
                \<longleftrightarrow> fround (t_respawnTimer (targets s' ! j) - d) \<le> 0)"
    by (simp add: projectileFrame_dead tickTarget_dead fround_sign)
  have dead: "d0 + sum_list ds < 3 - eps \<longrightarrow>
           \<not> t_alive (targets (projectileFrames (d0 # ds) s) ! j)
           \<and> \<bar>t_respawnTimer (targets (projectileFrames (d0 # ds) s) ! j)
                - (3 - (d0 + sum_list ds))\<bar> \<le> eps"
  proof
    assume "d0 + sum_list ds < 3 - eps"
    then have lt: "sum_list ds < 3 - d0 - (1 / 2 ^ 51 + real (length ds) * (1 / 2 ^ 51))"
      unfolding acc by linarith
    from countdown_dead [OF fround_error_4 rounding_unit j1 h(2) h(4) h(5) e assms(6) len lt]
    have "\<not> t_alive (targets (projectileFrames ds ?s1) ! j)"
      "\<bar>t_respawnTimer (targets (projectileFrames ds ?s1) ! j) - (3 - d0 - sum_list ds)\<bar> \<le> eps"
      unfolding acc by simp_all
    moreover have "3 - d0 - sum_list ds = 3 - (d0 + sum_list ds)" by simp
    ultimately show "\<not> t_alive (targets (projectileFrames (d0 # ds) s) ! j)
           \<and> \<bar>t_respawnTimer (targets (projectileFrames (d0 # ds) s) ! j)
                - (3 - (d0 + sum_list ds))\<bar> \<le> eps"
      by simp
  qed
  have alive: "3 + eps \<le> d0 + sum_list ds \<longrightarrow>
           (\<exists>k < length ds.
              t_alive (targets (projectileFrames (d0 # take (Suc k) ds) s) ! j))"
  proof
    assume "3 + eps \<le> d0 + sum_list ds"
    then have ge: "3 - d0 + (1 / 2 ^ 51 + real (length ds) * (1 / 2 ^ 51)) \<le> sum_list ds"
      unfolding acc by linarith
    from countdown_alive [OF fround_error_4 rounding_unit j1 h(2) h(4) h(5) e assms(6) len ge]
    show "\<exists>k < length ds.
              t_alive (targets (projectileFrames (d0 # take (Suc k) ds) s) ! j)"
      by simp
  qed
  show ?thesis
    unfolding eps_def [symmetric] using h(1,2,3) step dead alive by simp
qed

lemma tickBullets_loop_inactive:
  "\<forall>b\<in>set bs. \<not> b_active b \<Longrightarrow> tickBullets_loop dt bs ts = (bs, ts)"
  by (induction bs) (simp_all add: tickBullet_def)

lemma hitSession_bullets:
  "bullets hitSession
     = \<lparr>b_active = True, b_pos = Vector3 40 50 46, b_vel = Vector3 0 0 280, b_age = 0\<rparr>
       # replicate 29 \<lparr>b_active = False, b_pos = Vector3 0 0 0, b_vel = Vector3 0 0 0, b_age = 0\<rparr>"
  by (simp add: hitSession_def makeBulletPool_def numeral_eq_Suc)

lemma hitSession_targets: "targets hitSession = makeTargets"
  by (simp add: hitSession_def inVehicle_def Let_def initialController_def)

lemma hitSession_hit:
  "targets (tickBullets 0.05 hitSession) ! 0 = shot (makeTargets ! 0)"
  by (simp add: tickBullets_def hitSession_bullets hitSession_targets tickBullet_def
      tickBullets_loop_inactive addScaledVector_def makeTargets_def shot_def Let_def split_beta)


lemma hitSession_facts:
  "0 < length (targets hitSession)"
  "t_alive (targets hitSession ! 0)"
  "\<not> t_alive (targets (tickBullets 0.05 hitSession) ! 0)"
  "t_respawnTimer (targets (tickBullets 0.05 hitSession) ! 0) = 3"
  unfolding hitSession_hit
  by (simp_all add: hitSession_targets makeTargets_def shot_def)

lemma sum_replicate_61: "sum_list (replicate 61 (0.048 :: real)) = 2.928"
  by (simp add: sum_list_replicate)

lemma frames_61:
  "\<forall>d\<in>set (replicate 61 (0.048 :: real)). 0 \<le> d \<and> d \<le> 1"
  "real (length (replicate 61 (0.048 :: real))) + 1 \<le> 2 ^ 51"
  "1 / 2 ^ 51 + real (length (replicate 61 (0.048 :: real))) * (1 / 2 ^ 51) \<le> (1 :: real)"
  "1 / 2 ^ 51 + real (length (replicate 61 (0.048 :: real))) * (1 / 2 ^ 51)
     = (62 :: real) / 2 ^ 51"
  by simp_all

text \<open>
  The claim as stated says the target is never alive again earlier than 3 seconds of
  simulated time after the hit.  A target hit in a frame of 0.05 s and followed by frames
  of 0.048 s is alive at the end of the 62nd frame after the hit frame, 2.976 s later.
\<close>

theorem target_respawn_early_counterexample:
  "t_alive (targets hitSession ! 0)
   \<and> \<not> t_alive (targets (tickBullets 0.05 hitSession) ! 0)
   \<and> t_respawnTimer (targets (tickBullets 0.05 hitSession) ! 0) = 3
   \<and> \<not> t_alive (targets (projectileFrame 0.05 hitSession) ! 0)
   \<and> t_alive (targets (projectileFrames (replicate 61 0.048 @ [0.048])
                          (projectileFrame 0.05 hitSession)) ! 0)
   \<and> sum_list (replicate 61 0.048 @ [0.048 :: real]) < 3"
proof -
  let ?s1 = "projectileFrame 0.05 hitSession"
  let ?sn = "projectileFrames (replicate 61 0.048) ?s1"
  have z: "(0 :: real) \<le> 0.05" "(0.05 :: real) \<le> 1" by simp_all
  note h = hit_frame [OF hitSession_facts(1,2,3) z]
  have j1: "0 < length (targets ?s1)"
    using hitSession_facts(1) by (simp add: projectileFrame_targets)
  have e: "(3 :: real) - 0.05 \<le> 3" by simp
  have lt: "sum_list (replicate 61 (0.048 :: real))
              < 3 - 0.05 - (1 / 2 ^ 51
                  + real (length (replicate 61 (0.048 :: real))) * (1 / 2 ^ 51))"
    unfolding sum_replicate_61 frames_61(4) by simp
  from countdown_dead [OF fround_error_4 rounding_unit j1 h(2) h(4) h(5) e frames_61(1)
      frames_61(3) lt]
  have cd: "\<not> t_alive (targets ?sn ! 0)"
    "\<bar>t_respawnTimer (targets ?sn ! 0) - (3 - 0.05 - 2.928)\<bar> \<le> 62 / 2 ^ 51"
    unfolding frames_61(4) sum_replicate_61 by simp_all
  have deadn: "\<not> t_alive (targets ?sn ! 0)" by (rule cd(1))
  have "t_respawnTimer (targets ?sn ! 0) - (3 - 0.05 - 2.928) \<le> 62 / 2 ^ 51"
    using abs_ge_self cd(2) by (rule order_trans)
  then have timern: "t_respawnTimer (targets ?sn ! 0) - 0.048 \<le> 0" by simp
  have jn: "0 < length (targets ?sn)" using j1 by (simp add: projectileFrames_length)
  have "targets (projectileFrame 0.048 ?sn) ! 0 = tickTarget 0.048 (targets ?sn ! 0)"
    using jn deadn by (rule projectileFrame_dead)
  then have alive: "t_alive (targets (projectileFrames (replicate 61 0.048 @ [0.048]) ?s1) ! 0)"
    using tickTarget_dead(2) [OF deadn, of "0.048"] timern
    by (simp add: projectileFrames_append)
  have s: "sum_list (replicate 61 0.048 @ [0.048 :: real]) < 3"
    unfolding sum_list_append sum_replicate_61 by simp
  show ?thesis
    using hitSession_facts h(2) alive s by simp
qed

theorem target_respawn_countdown_witness:
  "0 < length (targets hitSession) \<and> t_alive (targets hitSession ! 0)
   \<and> \<not> t_alive (targets (tickBullets 0.05 hitSession) ! 0)
   \<and> (0 :: real) \<le> 0.05
   \<and> 0.05 + sum_list (replicate 61 (0.048 :: real)) < 3 - 62 / 2 ^ 51
   \<and> \<not> t_alive (targets (projectileFrames (0.05 # replicate 61 0.048) hitSession) ! 0)
   \<and> \<bar>t_respawnTimer (targets (projectileFrames (0.05 # replicate 61 0.048) hitSession) ! 0)
        - 0.022\<bar> \<le> 62 / 2 ^ 51"
proof -
  have z: "(0 :: real) \<le> 0.05" "(0.05 :: real) \<le> 1" by simp_all
  have a: "0.05 + sum_list (replicate 61 (0.048 :: real)) < 3 - 62 / 2 ^ 51"
    unfolding sum_replicate_61 by simp
  show ?thesis
    using target_respawn_countdown [OF hitSession_facts(1,2,3) z frames_61(1,2)]
      hitSession_facts a
    unfolding sum_replicate_61 by simp
qed

subsection \<open>Sixty clamped frames\<close>

lemma binade_unique:
  assumes "2 powi e \<le> \<bar>x\<bar>" "\<bar>x\<bar> < 2 powi (e + 1)"
  shows "binade x = e"
proof -
  have p: "(0 :: real) < 2 powi e" by simp
  have x: "x \<noteq> 0"
  proof
    assume "x = 0"
    then have "(2 :: real) powi e \<le> 0" using assms(1) by simp
    then show False using p by linarith
  qed
  note b = binade_bounds [OF x]
  have "\<not> binade x < e"
  proof
    assume "binade x < e"
    then have "binade x + 1 \<le> e" by simp
    then have "(2 :: real) powi (binade x + 1) \<le> 2 powi e" by (intro power_int_increasing) simp_all
    then show False using b assms(1) by linarith
  qed
  moreover have "\<not> e < binade x"
  proof
    assume "e < binade x"
    then have "e + 1 \<le> binade x" by simp
    then have "(2 :: real) powi (e + 1) \<le> 2 powi (binade x)" by (intro power_int_increasing) simp_all
    then show False using b assms(2) by linarith
  qed
  ultimately show ?thesis by simp
qed

lemma fround_binade:
  assumes "2 powi e \<le> \<bar>x\<bar>" "\<bar>x\<bar> < 2 powi (e + 1)"
  shows "fround x = of_int (roundTiesToEven (x / 2 powi (e - 52))) * 2 powi (e - 52)"
proof -
  have p: "(0 :: real) < 2 powi e" by simp
  have x: "x \<noteq> 0"
  proof
    assume "x = 0"
    then have "(2 :: real) powi e \<le> 0" using assms(1) by simp
    then show False using p by linarith
  qed
  show ?thesis using x binade_unique [OF assms] by (simp add: fround_def Let_def)
qed

text \<open>One more frame of a dead target, with the binade of the exact difference given.\<close>

lemma countingDown_frame:
  assumes "countingDown j t s"
    and "2 powi e \<le> \<bar>t - d\<bar>" and "\<bar>t - d\<bar> < 2 powi (e + 1)"
    and "of_int (roundTiesToEven ((t - d) / 2 powi (e - 52))) * 2 powi (e - 52) = t'"
    and "0 < t - d"
  shows "countingDown j t' (projectileFrame d s)"
proof -
  have c: "j < length (targets s)" "\<not> t_alive (targets s ! j)"
    "t_respawnTimer (targets s ! j) = t"
    using assms(1) by (simp_all add: countingDown_def)
  have t1: "targets (projectileFrame d s) ! j = tickTarget d (targets s ! j)"
    using c(1,2) by (rule projectileFrame_dead)
  have f: "fround (t - d) = t'" using fround_binade [OF assms(2,3)] assms(4) by simp
  show ?thesis
    unfolding countingDown_def t1
    using c assms(5) f tickTarget_dead [OF c(2), of d]
    by (simp add: projectileFrame_targets)
qed

lemma projectileFrames_replicate_Suc:
  "projectileFrames (replicate (Suc k) d) s = projectileFrame d (projectileFrames (replicate k d) s)"
proof -
  have "replicate (Suc k) d = replicate k d @ [d]" by (simp add: replicate_append_same)
  then show ?thesis by (simp only: projectileFrames_append projectileFrames.simps)
qed

lemma hitSession_hit_clamped:
  "targets (tickBullets (3602879701896397 / 2 ^ 56) hitSession) ! 0 = shot (makeTargets ! 0)"
  by (simp add: tickBullets_def hitSession_bullets hitSession_targets tickBullet_def
      tickBullets_loop_inactive addScaledVector_def makeTargets_def shot_def Let_def split_beta)

text \<open>
  Sixty frames of the clamped delta, the double nearest to 0.05: they add up to a little
  more than 3 seconds, and the rounded countdown still stands at \<open>165 / 2\<^sup>5\<^sup>6\<close>.  The
  target is dead at the end of the sixtieth frame and alive at the end of the next.
\<close>

lemma sixty_clamped_frames:
  "countingDown 0 (165 / 2 ^ 56) (projectileFrames (replicate 60 (fround 0.05)) hitSession)"
  "t_alive (targets (projectileFrames (replicate 61 (fround 0.05)) hitSession) ! 0)"
  "3 < sum_list (replicate 60 (fround 0.05))"
proof -
  let ?d = "3602879701896397 / 2 ^ 56 :: real"
  define S where "S k = projectileFrames (replicate k ?d) hitSession" for k
  have suc: "S (Suc k) = projectileFrame ?d (S k)" for k
    unfolding S_def by (rule projectileFrames_replicate_Suc)
  have l: "0 < length (targets hitSession)" "t_alive (targets hitSession ! 0)"
    by (rule hitSession_facts)+
  have k: "\<not> t_alive (targets (tickBullets ?d hitSession) ! 0)"
    unfolding hitSession_hit_clamped by (rule shot_dead)
  have z: "0 \<le> ?d" "?d \<le> 1" by simp_all
  note h = hit_frame [OF l k z]
  have "fround (3 - ?d) = 3321404725185741 / 2 ^ 50"
    by (subst fround_binade [where e = 1])
      (simp_all add: roundTiesToEven_def Let_def power_int_minus)
  then have c1: "countingDown 0 (3321404725185741 / 2 ^ 50) (S 1)"
    using h(2,3) l(1) by (simp add: S_def countingDown_def projectileFrame_targets)
  have c2: "countingDown 0 (1632554864921805 / 2 ^ 49) (S 2)"
    using countingDown_frame [OF c1, where d = "?d" and e = "1" and t' = "1632554864921805 / 2 ^ 49"]
      suc [of 1]
    by (simp add: roundTiesToEven_def Let_def power_int_minus numeral_2_eq_2)
  have c3: "countingDown 0 (3208814734501479 / 2 ^ 50) (S 3)"
    using countingDown_frame [OF c2, where d = "?d" and e = "1" and t' = "3208814734501479 / 2 ^ 50"]
      suc [of 2]
    by (simp add: roundTiesToEven_def Let_def power_int_minus)
  have c4: "countingDown 0 (788129934789837 / 2 ^ 48) (S 4)"
    using countingDown_frame [OF c3, where d = "?d" and e = "1" and t' = "788129934789837 / 2 ^ 48"]
      suc [of 3]
    by (simp add: roundTiesToEven_def Let_def power_int_minus)
  have c5: "countingDown 0 (3096224743817217 / 2 ^ 50) (S 5)"
    using countingDown_frame [OF c4, where d = "?d" and e = "1" and t' = "3096224743817217 / 2 ^ 50"]
      suc [of 4]
    by (simp add: roundTiesToEven_def Let_def power_int_minus)
  have c6: "countingDown 0 (1519964874237543 / 2 ^ 49) (S 6)"
    using countingDown_frame [OF c5, where d = "?d" and e = "1" and t' = "1519964874237543 / 2 ^ 49"]
      suc [of 5]
    by (simp add: roundTiesToEven_def Let_def power_int_minus)
  have c7: "countingDown 0 (2983634753132955 / 2 ^ 50) (S 7)"
    using countingDown_frame [OF c6, where d = "?d" and e = "1" and t' = "2983634753132955 / 2 ^ 50"]
      suc [of 6]
    by (simp add: roundTiesToEven_def Let_def power_int_minus)
  have c8: "countingDown 0 (365917469723853 / 2 ^ 47) (S 8)"
    using countingDown_frame [OF c7, where d = "?d" and e = "1" and t' = "365917469723853 / 2 ^ 47"]
      suc [of 7]
    by (simp add: roundTiesToEven_def Let_def power_int_minus)
  have c9: "countingDown 0 (2871044762448693 / 2 ^ 50) (S 9)"
    using countingDown_frame [OF c8, where d = "?d" and e = "1" and t' = "2871044762448693 / 2 ^ 50"]
      suc [of 8]
    by (simp add: roundTiesToEven_def Let_def power_int_minus)
  have c10: "countingDown 0 (1407374883553281 / 2 ^ 49) (S 10)"
    using countingDown_frame [OF c9, where d = "?d" and e = "1" and t' = "1407374883553281 / 2 ^ 49"]
      suc [of 9]
    by (simp add: roundTiesToEven_def Let_def power_int_minus)
  have c11: "countingDown 0 (2758454771764431 / 2 ^ 50) (S 11)"
    using countingDown_frame [OF c10, where d = "?d" and e = "1" and t' = "2758454771764431 / 2 ^ 50"]
      suc [of 10]
    by (simp add: roundTiesToEven_def Let_def power_int_minus)
  have c12: "countingDown 0 (675539944105575 / 2 ^ 48) (S 12)"
    using countingDown_frame [OF c11, where d = "?d" and e = "1" and t' = "675539944105575 / 2 ^ 48"]
      suc [of 11]
    by (simp add: roundTiesToEven_def Let_def power_int_minus)
  have c13: "countingDown 0 (2645864781080169 / 2 ^ 50) (S 13)"
    using countingDown_frame [OF c12, where d = "?d" and e = "1" and t' = "2645864781080169 / 2 ^ 50"]
      suc [of 12]
    by (simp add: roundTiesToEven_def Let_def power_int_minus)
  have c14: "countingDown 0 (1294784892869019 / 2 ^ 49) (S 14)"
    using countingDown_frame [OF c13, where d = "?d" and e = "1" and t' = "1294784892869019 / 2 ^ 49"]
      suc [of 13]
    by (simp add: roundTiesToEven_def Let_def power_int_minus)
  have c15: "countingDown 0 (2533274790395907 / 2 ^ 50) (S 15)"
    using countingDown_frame [OF c14, where d = "?d" and e = "1" and t' = "2533274790395907 / 2 ^ 50"]
      suc [of 14]
    by (simp add: roundTiesToEven_def Let_def power_int_minus)
  have c16: "countingDown 0 (154811237190861 / 2 ^ 46) (S 16)"
    using countingDown_frame [OF c15, where d = "?d" and e = "1" and t' = "154811237190861 / 2 ^ 46"]
      suc [of 15]
    by (simp add: roundTiesToEven_def Let_def power_int_minus)
  have c17: "countingDown 0 (2420684799711645 / 2 ^ 50) (S 17)"
    using countingDown_frame [OF c16, where d = "?d" and e = "1" and t' = "2420684799711645 / 2 ^ 50"]
      suc [of 16]
    by (simp add: roundTiesToEven_def Let_def power_int_minus)
  have c18: "countingDown 0 (1182194902184757 / 2 ^ 49) (S 18)"
    using countingDown_frame [OF c17, where d = "?d" and e = "1" and t' = "1182194902184757 / 2 ^ 49"]
      suc [of 17]
    by (simp add: roundTiesToEven_def Let_def power_int_minus)
  have c19: "countingDown 0 (2308094809027383 / 2 ^ 50) (S 19)"
    using countingDown_frame [OF c18, where d = "?d" and e = "1" and t' = "2308094809027383 / 2 ^ 50"]
      suc [of 18]
    by (simp add: roundTiesToEven_def Let_def power_int_minus)
  have c20: "countingDown 0 (562949953421313 / 2 ^ 48) (S 20)"
    using countingDown_frame [OF c19, where d = "?d" and e = "1" and t' = "562949953421313 / 2 ^ 48"]
      suc [of 19]
    by (simp add: roundTiesToEven_def Let_def power_int_minus)
  have c21: "countingDown 0 (8782019273372483 / 2 ^ 52) (S 21)"
    using countingDown_frame [OF c20, where d = "?d" and e = "0" and t' = "8782019273372483 / 2 ^ 52"]
      suc [of 20]
    by (simp add: roundTiesToEven_def Let_def power_int_minus)
  have c22: "countingDown 0 (4278419646001979 / 2 ^ 51) (S 22)"
    using countingDown_frame [OF c21, where d = "?d" and e = "0" and t' = "4278419646001979 / 2 ^ 51"]
      suc [of 21]
    by (simp add: roundTiesToEven_def Let_def power_int_minus)
  have c23: "countingDown 0 (8331659310635433 / 2 ^ 52) (S 23)"
    using countingDown_frame [OF c22, where d = "?d" and e = "0" and t' = "8331659310635433 / 2 ^ 52"]
      suc [of 22]
    by (simp add: roundTiesToEven_def Let_def power_int_minus)
  have c24: "countingDown 0 (2026619832316727 / 2 ^ 50) (S 24)"
    using countingDown_frame [OF c23, where d = "?d" and e = "0" and t' = "2026619832316727 / 2 ^ 50"]
      suc [of 23]
    by (simp add: roundTiesToEven_def Let_def power_int_minus)
  have c25: "countingDown 0 (7881299347898383 / 2 ^ 52) (S 25)"
    using countingDown_frame [OF c24, where d = "?d" and e = "0" and t' = "7881299347898383 / 2 ^ 52"]
      suc [of 24]
    by (simp add: roundTiesToEven_def Let_def power_int_minus)
  have c26: "countingDown 0 (3828059683264929 / 2 ^ 51) (S 26)"
    using countingDown_frame [OF c25, where d = "?d" and e = "0" and t' = "3828059683264929 / 2 ^ 51"]
      suc [of 25]
    by (simp add: roundTiesToEven_def Let_def power_int_minus)
  have c27: "countingDown 0 (7430939385161333 / 2 ^ 52) (S 27)"
    using countingDown_frame [OF c26, where d = "?d" and e = "0" and t' = "7430939385161333 / 2 ^ 52"]
      suc [of 26]
    by (simp add: roundTiesToEven_def Let_def power_int_minus)
  have c28: "countingDown 0 (900719925474101 / 2 ^ 49) (S 28)"
    using countingDown_frame [OF c27, where d = "?d" and e = "0" and t' = "900719925474101 / 2 ^ 49"]
      suc [of 27]
    by (simp add: roundTiesToEven_def Let_def power_int_minus)
  have c29: "countingDown 0 (6980579422424283 / 2 ^ 52) (S 29)"
    using countingDown_frame [OF c28, where d = "?d" and e = "0" and t' = "6980579422424283 / 2 ^ 52"]
      suc [of 28]
    by (simp add: roundTiesToEven_def Let_def power_int_minus)
  have c30: "countingDown 0 (3377699720527879 / 2 ^ 51) (S 30)"
    using countingDown_frame [OF c29, where d = "?d" and e = "0" and t' = "3377699720527879 / 2 ^ 51"]
      suc [of 29]
    by (simp add: roundTiesToEven_def Let_def power_int_minus)
  have c31: "countingDown 0 (6530219459687233 / 2 ^ 52) (S 31)"
    using countingDown_frame [OF c30, where d = "?d" and e = "0" and t' = "6530219459687233 / 2 ^ 52"]
      suc [of 30]
    by (simp add: roundTiesToEven_def Let_def power_int_minus)
  have c32: "countingDown 0 (1576259869579677 / 2 ^ 50) (S 32)"
    using countingDown_frame [OF c31, where d = "?d" and e = "0" and t' = "1576259869579677 / 2 ^ 50"]
      suc [of 31]
    by (simp add: roundTiesToEven_def Let_def power_int_minus)
  have c33: "countingDown 0 (6079859496950183 / 2 ^ 52) (S 33)"
    using countingDown_frame [OF c32, where d = "?d" and e = "0" and t' = "6079859496950183 / 2 ^ 52"]
      suc [of 32]
    by (simp add: roundTiesToEven_def Let_def power_int_minus)
  have c34: "countingDown 0 (2927339757790829 / 2 ^ 51) (S 34)"
    using countingDown_frame [OF c33, where d = "?d" and e = "0" and t' = "2927339757790829 / 2 ^ 51"]
      suc [of 33]
    by (simp add: roundTiesToEven_def Let_def power_int_minus)
  have c35: "countingDown 0 (5629499534213133 / 2 ^ 52) (S 35)"
    using countingDown_frame [OF c34, where d = "?d" and e = "0" and t' = "5629499534213133 / 2 ^ 52"]
      suc [of 34]
    by (simp add: roundTiesToEven_def Let_def power_int_minus)
  have c36: "countingDown 0 (84442493013197 / 2 ^ 46) (S 36)"
    using countingDown_frame [OF c35, where d = "?d" and e = "0" and t' = "84442493013197 / 2 ^ 46"]
      suc [of 35]
    by (simp add: roundTiesToEven_def Let_def power_int_minus)
  have c37: "countingDown 0 (5179139571476083 / 2 ^ 52) (S 37)"
    using countingDown_frame [OF c36, where d = "?d" and e = "0" and t' = "5179139571476083 / 2 ^ 52"]
      suc [of 36]
    by (simp add: roundTiesToEven_def Let_def power_int_minus)
  have c38: "countingDown 0 (2476979795053779 / 2 ^ 51) (S 38)"
    using countingDown_frame [OF c37, where d = "?d" and e = "0" and t' = "2476979795053779 / 2 ^ 51"]
      suc [of 37]
    by (simp add: roundTiesToEven_def Let_def power_int_minus)
  have c39: "countingDown 0 (4728779608739033 / 2 ^ 52) (S 39)"
    using countingDown_frame [OF c38, where d = "?d" and e = "0" and t' = "4728779608739033 / 2 ^ 52"]
      suc [of 38]
    by (simp add: roundTiesToEven_def Let_def power_int_minus)
  have c40: "countingDown 0 (1125899906842627 / 2 ^ 50) (S 40)"
    using countingDown_frame [OF c39, where d = "?d" and e = "0" and t' = "1125899906842627 / 2 ^ 50"]
      suc [of 39]
    by (simp add: roundTiesToEven_def Let_def power_int_minus)
  have c41: "countingDown 0 (4278419646001983 / 2 ^ 52) (S 41)"
    using countingDown_frame [OF c40, where d = "?d" and e = "- 1" and t' = "4278419646001983 / 2 ^ 52"]
      suc [of 40]
    by (simp add: roundTiesToEven_def Let_def power_int_minus)
  have c42: "countingDown 0 (2026619832316729 / 2 ^ 51) (S 42)"
    using countingDown_frame [OF c41, where d = "?d" and e = "- 1" and t' = "2026619832316729 / 2 ^ 51"]
      suc [of 41]
    by (simp add: roundTiesToEven_def Let_def power_int_minus)
  have c43: "countingDown 0 (3828059683264933 / 2 ^ 52) (S 43)"
    using countingDown_frame [OF c42, where d = "?d" and e = "- 1" and t' = "3828059683264933 / 2 ^ 52"]
      suc [of 42]
    by (simp add: roundTiesToEven_def Let_def power_int_minus)
  have c44: "countingDown 0 (450359962737051 / 2 ^ 49) (S 44)"
    using countingDown_frame [OF c43, where d = "?d" and e = "- 1" and t' = "450359962737051 / 2 ^ 49"]
      suc [of 43]
    by (simp add: roundTiesToEven_def Let_def power_int_minus)
  have c45: "countingDown 0 (3377699720527883 / 2 ^ 52) (S 45)"
    using countingDown_frame [OF c44, where d = "?d" and e = "- 1" and t' = "3377699720527883 / 2 ^ 52"]
      suc [of 44]
    by (simp add: roundTiesToEven_def Let_def power_int_minus)
  have c46: "countingDown 0 (1576259869579679 / 2 ^ 51) (S 46)"
    using countingDown_frame [OF c45, where d = "?d" and e = "- 1" and t' = "1576259869579679 / 2 ^ 51"]
      suc [of 45]
    by (simp add: roundTiesToEven_def Let_def power_int_minus)
  have c47: "countingDown 0 (2927339757790833 / 2 ^ 52) (S 47)"
    using countingDown_frame [OF c46, where d = "?d" and e = "- 1" and t' = "2927339757790833 / 2 ^ 52"]
      suc [of 46]
    by (simp add: roundTiesToEven_def Let_def power_int_minus)
  have c48: "countingDown 0 (675539944105577 / 2 ^ 50) (S 48)"
    using countingDown_frame [OF c47, where d = "?d" and e = "- 1" and t' = "675539944105577 / 2 ^ 50"]
      suc [of 47]
    by (simp add: roundTiesToEven_def Let_def power_int_minus)
  have c49: "countingDown 0 (2476979795053783 / 2 ^ 52) (S 49)"
    using countingDown_frame [OF c48, where d = "?d" and e = "- 1" and t' = "2476979795053783 / 2 ^ 52"]
      suc [of 48]
    by (simp add: roundTiesToEven_def Let_def power_int_minus)
  have c50: "countingDown 0 (1125899906842629 / 2 ^ 51) (S 50)"
    using countingDown_frame [OF c49, where d = "?d" and e = "- 1" and t' = "1125899906842629 / 2 ^ 51"]
      suc [of 49]
    by (simp add: roundTiesToEven_def Let_def power_int_minus)
  have c51: "countingDown 0 (8106479329266933 / 2 ^ 54) (S 51)"
    using countingDown_frame [OF c50, where d = "?d" and e = "- 2" and t' = "8106479329266933 / 2 ^ 54"]
      suc [of 50]
    by (simp add: roundTiesToEven_def Let_def power_int_minus)
  have c52: "countingDown 0 (3602879701896417 / 2 ^ 53) (S 52)"
    using countingDown_frame [OF c51, where d = "?d" and e = "- 2" and t' = "3602879701896417 / 2 ^ 53"]
      suc [of 51]
    by (simp add: roundTiesToEven_def Let_def power_int_minus)
  have c53: "countingDown 0 (6305039478318735 / 2 ^ 54) (S 53)"
    using countingDown_frame [OF c52, where d = "?d" and e = "- 2" and t' = "6305039478318735 / 2 ^ 54"]
      suc [of 52]
    by (simp add: roundTiesToEven_def Let_def power_int_minus)
  have c54: "countingDown 0 (1351079888211159 / 2 ^ 52) (S 54)"
    using countingDown_frame [OF c53, where d = "?d" and e = "- 2" and t' = "1351079888211159 / 2 ^ 52"]
      suc [of 53]
    by (simp add: roundTiesToEven_def Let_def power_int_minus)
  have c55: "countingDown 0 (4503599627370537 / 2 ^ 54) (S 55)"
    using countingDown_frame [OF c54, where d = "?d" and e = "- 2" and t' = "4503599627370537 / 2 ^ 54"]
      suc [of 54]
    by (simp add: roundTiesToEven_def Let_def power_int_minus)
  have c56: "countingDown 0 (1801439850948219 / 2 ^ 53) (S 56)"
    using countingDown_frame [OF c55, where d = "?d" and e = "- 3" and t' = "1801439850948219 / 2 ^ 53"]
      suc [of 55]
    by (simp add: roundTiesToEven_def Let_def power_int_minus)
  have c57: "countingDown 0 (2702159776422339 / 2 ^ 54) (S 57)"
    using countingDown_frame [OF c56, where d = "?d" and e = "- 3" and t' = "2702159776422339 / 2 ^ 54"]
      suc [of 56]
    by (simp add: roundTiesToEven_def Let_def power_int_minus)
  have c58: "countingDown 0 (7205759403792959 / 2 ^ 56) (S 58)"
    using countingDown_frame [OF c57, where d = "?d" and e = "- 4" and t' = "7205759403792959 / 2 ^ 56"]
      suc [of 57]
    by (simp add: roundTiesToEven_def Let_def power_int_minus)
  have c59: "countingDown 0 (1801439850948281 / 2 ^ 55) (S 59)"
    using countingDown_frame [OF c58, where d = "?d" and e = "- 5" and t' = "1801439850948281 / 2 ^ 55"]
      suc [of 58]
    by (simp add: roundTiesToEven_def Let_def power_int_minus)
  have c60: "countingDown 0 (165 / 2 ^ 56) (S 60)"
    using countingDown_frame [OF c59, where d = "?d" and e = "- 49" and t' = "165 / 2 ^ 56"]
      suc [of 59]
    by (simp add: roundTiesToEven_def Let_def power_int_minus)
  show "countingDown 0 (165 / 2 ^ 56) (projectileFrames (replicate 60 (fround 0.05)) hitSession)"
    unfolding fround_examples(2) using c60 by (simp only: S_def)
  have c: "0 < length (targets (S 60))" "\<not> t_alive (targets (S 60) ! 0)"
    "t_respawnTimer (targets (S 60) ! 0) = 165 / 2 ^ 56"
    using c60 by (simp_all add: countingDown_def)
  have t1: "targets (projectileFrame ?d (S 60)) ! 0 = tickTarget ?d (targets (S 60) ! 0)"
    using c(1,2) by (rule projectileFrame_dead)
  have "t_alive (targets (S 61) ! 0)"
    using suc [of 60] t1 tickTarget_dead(2) [OF c(2), of ?d] c(3) by simp
  then show "t_alive (targets (projectileFrames (replicate 61 (fround 0.05)) hitSession) ! 0)"
    unfolding fround_examples(2) by (simp only: S_def)
  show "3 < sum_list (replicate 60 (fround 0.05))"
    unfolding fround_examples(2) by (simp add: sum_list_replicate)
qed

section \<open>Speed bounds\<close>


lemma driveMaxSpd_ge: "65 \<le> driveMaxSpd onRoad boosting"
  by (simp add: driveMaxSpd_def)


lemma driveThrottle_bounds:
  "- 18 \<le> driveThrottle dt k boosting onRoad speed"
  "driveThrottle dt k boosting onRoad speed \<le> driveMaxSpd onRoad boosting"
proof -
  have m: "- 18 \<le> driveMaxSpd onRoad boosting" using driveMaxSpd_ge [of onRoad boosting] by simp
  show "- 18 \<le> driveThrottle dt k boosting onRoad speed"
    using m unfolding driveThrottle_def Let_def by (simp add: le_max_iff_disj)
  show "driveThrottle dt k boosting onRoad speed \<le> driveMaxSpd onRoad boosting"
    using m driveMaxSpd_ge [of onRoad boosting] unfolding driveThrottle_def Let_def by simp
qed


lemma flyThrottle_bounds:
  "0 \<le> flyThrottle dt k speed" "flyThrottle dt k speed \<le> 120"
  by (simp_all add: flyThrottle_def le_max_iff_disj)


lemma driveVertical_speed:
  "v_speed (fst (driveVertical tp dt k (v, velY, og))) = v_speed v
   \<or> v_speed (fst (driveVertical tp dt k (v, velY, og))) = v_speed v * (- 0.3)"
  by (simp add: driveVertical_def Let_def split_beta setY_def)


lemma activeVehicle_index:
  "activeVehicle s = Some (i, v) \<Longrightarrow>
   activeIdx s = Some i \<and> i < length (vehicles s) \<and> v = vehicles s ! i"
  by (auto simp: activeVehicle_def split: option.splits if_splits)


lemma driveStep_frame:
  "modeRef (driveStep tp dt k now i v s) = modeRef s"
  "activeIdx (driveStep tp dt k now i v s) = activeIdx s"
  "length (vehicles (driveStep tp dt k now i v s)) = length (vehicles s)"
  "bullets (driveStep tp dt k now i v s) = bullets s"
  by (simp_all add: driveStep_def Let_def split_beta)


lemma driveStep_speed:
  assumes "i < length (vehicles s)"
  shows "v_speed (vehicles (driveStep tp dt k now i v s) ! i)
           = driveThrottle dt k (k_shift k \<and> boostMeter s > 0 \<and> k_forward k)
               (isOnTrack tp (Vector3 (vx (v_pos v)) 0 (vz (v_pos v)))) (v_speed v)
       \<or> v_speed (vehicles (driveStep tp dt k now i v s) ! i)
           = driveThrottle dt k (k_shift k \<and> boostMeter s > 0 \<and> k_forward k)
               (isOnTrack tp (Vector3 (vx (v_pos v)) 0 (vz (v_pos v)))) (v_speed v) * (- 0.3)"
proof -
  let ?c = "driveThrottle dt k (k_shift k \<and> boostMeter s > 0 \<and> k_forward k)
               (isOnTrack tp (Vector3 (vx (v_pos v)) 0 (vz (v_pos v)))) (v_speed v)"
  let ?v1 = "moveAlong dt (v\<lparr>v_speed := ?c, v_rot := driveSteer dt k ?c (v_rot v)\<rparr>)"
  have e: "vehicles (driveStep tp dt k now i v s) ! i
             = fst (driveVertical tp dt k (?v1, carVelY s, carOnGround s))"
    using assms by (simp add: driveStep_def Let_def split_beta)
  have c: "v_speed ?v1 = ?c" by (simp add: moveAlong_def)
  show ?thesis
    unfolding e using driveVertical_speed [of tp dt k ?v1 "carVelY s" "carOnGround s"] c by simp
qed


lemma resolveCollision_speed:
  "\<bar>v_speed (fst (resolveCollision r me ox oz r' po))\<bar> \<le> \<bar>v_speed me\<bar>"
  by (simp add: resolveCollision_def Let_def abs_mult)


lemma collideLocal_speed:
  assumes "a < length vs"
  shows "length (collideLocal a i vs) = length vs
     \<and> \<bar>v_speed (collideLocal a i vs ! a)\<bar> \<le> \<bar>v_speed (vs ! a)\<bar>"
proof (cases "i = a")
  case True
  then show ?thesis by (simp add: collideLocal_def)
next
  case False
  let ?res = "resolveCollision (collisionRadius (v_type (vs ! a))) (vs ! a)
                (vx (v_pos (vs ! i))) (vz (v_pos (vs ! i)))
                (collisionRadius (v_type (vs ! i))) (Some (v_pos (vs ! i)))"
  have "collideLocal a i vs ! a = fst ?res"
    using False assms by (simp add: collideLocal_def Let_def split_beta)
  moreover have "length (collideLocal a i vs) = length vs"
    using False by (simp add: collideLocal_def Let_def split_beta)
  ultimately show ?thesis
    using resolveCollision_speed [of "collisionRadius (v_type (vs ! a))" "vs ! a"
        "vx (v_pos (vs ! i))" "vz (v_pos (vs ! i))" "collisionRadius (v_type (vs ! i))"
        "Some (v_pos (vs ! i))"]
    by simp
qed


lemma collideRemote_speed:
  assumes "a < length vs"
  shows "length (collideRemote a rp vs) = length vs
     \<and> \<bar>v_speed (collideRemote a rp vs ! a)\<bar> \<le> \<bar>v_speed (vs ! a)\<bar>"
  using assms resolveCollision_speed [of "collisionRadius (v_type (vs ! a))" "vs ! a"
      "vx (rp_position rp)" "vz (rp_position rp)" "remoteRadius (rp_mode rp)" None]
  by (simp add: collideRemote_def Let_def)


lemma fold_collideLocal_speed:
  "a < length vs \<Longrightarrow>
   length (fold (collideLocal a) is vs) = length vs
   \<and> \<bar>v_speed (fold (collideLocal a) is vs ! a)\<bar> \<le> \<bar>v_speed (vs ! a)\<bar>"
proof (induction "is" arbitrary: vs)
  case Nil
  show ?case by simp
next
  case (Cons i "is")
  note s = collideLocal_speed [OF Cons.prems, of i]
  then have "a < length (collideLocal a i vs)" using Cons.prems by simp
  from Cons.IH [OF this] s show ?case by simp
qed


lemma fold_collideRemote_speed:
  "a < length vs \<Longrightarrow>
   length (fold (collideRemote a) rps vs) = length vs
   \<and> \<bar>v_speed (fold (collideRemote a) rps vs ! a)\<bar> \<le> \<bar>v_speed (vs ! a)\<bar>"
proof (induction rps arbitrary: vs)
  case Nil
  show ?case by simp
next
  case (Cons rp rps)
  note s = collideRemote_speed [OF Cons.prems, of rp]
  then have "a < length (collideRemote a rp vs)" using Cons.prems by simp
  from Cons.IH [OF this] s show ?case by simp
qed


lemma tickVehicleCollisions_speed:
  assumes "modeRef s \<noteq> walking" "activeIdx s = Some a" "a < length (vehicles s)"
  shows "\<exists>s'. tickVehicleCollisions rps s = Inr s'
     \<and> \<bar>v_speed (vehicles s' ! a)\<bar> \<le> \<bar>v_speed (vehicles s ! a)\<bar>"
proof -
  let ?vs1 = "fold (collideLocal a) [0..<length (vehicles s)] (vehicles s)"
  note l = fold_collideLocal_speed [OF assms(3), of "[0..<length (vehicles s)]"]
  then have "a < length ?vs1" using assms(3) by simp
  note r = fold_collideRemote_speed [OF this, of rps]
  show ?thesis
    using assms l r by (simp add: tickVehicleCollisions_def)
qed


lemma projectileFrame_frame:
  "modeRef (projectileFrame dt s) = modeRef s"
  "activeIdx (projectileFrame dt s) = activeIdx s"
  "vehicles (projectileFrame dt s) = vehicles s"
  by (simp_all add: projectileFrame_def tickTargets_def tickMuzzleFlash_def tickBullets_def
      split_beta)



lemma fireBullet_frame:
  assumes "activeVehicle s = Some (i, v)"
  shows "\<exists>s'. fireBullet s = Inr s' \<and> vehicles s' = vehicles s
     \<and> modeRef s' = modeRef s \<and> activeIdx s' = activeIdx s"
proof (cases "find_inactive (bullets s)")
  case None
  then show ?thesis by (simp add: fireBullet_def)
next
  case (Some j)
  then show ?thesis using assms by (simp add: fireBullet_def Let_def)
qed


lemma fireWeapon_frame:
  assumes "activeVehicle s = Some (i, v)"
  shows "\<exists>s'. fireWeapon mode mouse now s = Inr s' \<and> vehicles s' = vehicles s
     \<and> modeRef s' = modeRef s \<and> activeIdx s' = activeIdx s"
proof -
  have a: "activeVehicle (s\<lparr>lastFireTime := now / 1000\<rparr>) = Some (i, v)"
    using assms by (auto simp: activeVehicle_def split: option.splits if_splits)
  show ?thesis
    using fireBullet_frame [OF a] by (simp add: fireWeapon_def Let_def)
qed


lemma simulate_vehicle_step:
  assumes step: "modeStep tp dt k False mouse taken now (s\<lparr>interactPressed := False\<rparr>) = Inr s1"
    and keep: "modeRef s1 \<noteq> walking" "activeIdx s1 = Some i" "i < length (vehicles s1)"
    and np: "\<not> interactPressed s"
  shows "\<exists>s'. simulate tp dt k mouse taken rps now s = Inr s'
     \<and> \<bar>v_speed (vehicles s' ! i)\<bar> \<le> \<bar>v_speed (vehicles s1 ! i)\<bar>"
proof -
  have av: "activeVehicle s1 = Some (i, vehicles s1 ! i)"
    using keep by (simp add: activeVehicle_def)
  from fireWeapon_frame [OF av, of "modeRef s" mouse now]
  obtain s2 where s2: "fireWeapon (modeRef s) mouse now s1 = Inr s2" "vehicles s2 = vehicles s1"
    "modeRef s2 = modeRef s1" "activeIdx s2 = activeIdx s1" by blast
  let ?s3 = "projectileFrame dt s2"
  have k3: "modeRef ?s3 \<noteq> walking" "activeIdx ?s3 = Some i" "i < length (vehicles ?s3)"
    using keep s2 by (simp_all add: projectileFrame_frame)
  from tickVehicleCollisions_speed [OF k3, of rps]
  obtain s' where s': "tickVehicleCollisions rps ?s3 = Inr s'"
    "\<bar>v_speed (vehicles s' ! i)\<bar> \<le> \<bar>v_speed (vehicles ?s3 ! i)\<bar>" by blast
  have "simulate tp dt k mouse taken rps now s = Inr s'"
    using step s2(1) s'(1) np by (simp add: simulate_def Let_def bindE_def)
  then show ?thesis using s'(2) s2(2) by (simp add: projectileFrame_frame)
qed


lemma flyStep_frame:
  "modeRef (flyStep dt k mouse i v s) = modeRef s"
  "activeIdx (flyStep dt k mouse i v s) = activeIdx s"
  "length (vehicles (flyStep dt k mouse i v s)) = length (vehicles s)"
  "i < length (vehicles s) \<Longrightarrow>
     v_speed (vehicles (flyStep dt k mouse i v s) ! i) = flyThrottle dt k (v_speed v)"
  by (simp_all add: flyStep_def Let_def moveAlong_def setY_def)


lemma syncToReact_walking_speed:
  "modeRef s = walking \<Longrightarrow> syncToReact k now s = Inr st \<Longrightarrow>
   ps_speed st = 0 \<or> ps_speed st = 8 \<or> ps_speed st = 16"
  by (auto simp: syncToReact_def Let_def split: if_splits)


lemma sqrt_less_numeral: "0 < c \<Longrightarrow> sqrt x < c \<longleftrightarrow> x < c * c"
proof -
  assume c: "0 < c"
  have "sqrt x < c \<longleftrightarrow> sqrt x < sqrt (c * c)" using c by simp
  also have "\<dots> \<longleftrightarrow> x < c * c" by (rule real_sqrt_less_iff)
  finally show ?thesis .
qed

lemma sqrt_times_less_numeral:
  "0 < a \<Longrightarrow> 0 < c \<Longrightarrow> sqrt x * a < c \<longleftrightarrow> x < (c / a) * (c / a)"
  using sqrt_less_numeral [of "c / a" x] by (simp add: field_simps)

lemma numeral_less_sqrt: "0 \<le> c \<Longrightarrow> c < sqrt x \<longleftrightarrow> c * c < x"
proof -
  assume c: "0 \<le> c"
  have "c < sqrt x \<longleftrightarrow> sqrt (c * c) < sqrt x" using c by simp
  also have "\<dots> \<longleftrightarrow> c * c < x" by (rule real_sqrt_less_iff)
  finally show ?thesis .
qed

lemma numeral_less_sqrt_times:
  "0 < a \<Longrightarrow> 0 \<le> c \<Longrightarrow> c < sqrt x * a \<longleftrightarrow> (c / a) * (c / a) < x"
  using numeral_less_sqrt [of "c / a" x] by (simp add: field_simps)

lemmas sqrt_compare = sqrt_less_numeral sqrt_times_less_numeral numeral_less_sqrt
  numeral_less_sqrt_times

lemmas track_defs = getNearestTrackInfo_def isOnTrack_def getTrackElevation_def
  getGroundHeight_def nth_opt_def farTrack_def trackPath_def

lemmas collide_defs = collideLocal_def collideRemote_def collisionRadius_def remoteRadius_def
  resolveCollision_def

lemma driveStep_vehicles:
  "vehicles (driveStep tp dt k now i v s)
     = (vehicles s)
       [i := fst (driveVertical tp dt k
                    (moveAlong dt
                       (v\<lparr>v_speed := driveThrottle dt k (k_shift k \<and> boostMeter s > 0 \<and> k_forward k)
                                      (isOnTrack tp (Vector3 (vx (v_pos v)) 0 (vz (v_pos v))))
                                      (v_speed v),
                          v_rot := driveSteer dt k
                                     (driveThrottle dt k (k_shift k \<and> boostMeter s > 0 \<and> k_forward k)
                                        (isOnTrack tp (Vector3 (vx (v_pos v)) 0 (vz (v_pos v))))
                                        (v_speed v))
                                     (v_rot v)\<rparr>),
                     carVelY s, carOnGround s))]"
  by (simp add: driveStep_def Let_def split_beta)

lemma driveVertical_rot: "v_rot (fst (driveVertical tp dt k (v, velY, og))) = v_rot v"
  by (simp add: driveVertical_def Let_def split_beta setY_def)

lemma simulate_driving:
  assumes "modeRef s = driving" "\<not> interactPressed s"
    and "tickDriving tp dt k False now s = Inr s1"
  shows "simulate tp dt k mouse taken rps now s
           = tickVehicleCollisions rps (projectileFrame dt s1)"
proof -
  have e: "s\<lparr>interactPressed := False\<rparr> = s" using assms(2) by simp
  show ?thesis
    unfolding simulate_def Let_def e
    by (simp add: assms modeStep_def fireWeapon_def bindE_def)
qed

lemma tickVehicleCollisions_activeSpeed:
  assumes "modeRef s \<noteq> walking" "activeIdx s = Some a" "a < length (vehicles s)"
  shows "activeSpeed (tickVehicleCollisions rps s)
     = Some (v_speed (fold (collideRemote a) rps
                        (fold (collideLocal a) [0..<length (vehicles s)] (vehicles s)) ! a))"
proof -
  let ?vs1 = "fold (collideLocal a) [0..<length (vehicles s)] (vehicles s)"
  note l = fold_collideLocal_speed [OF assms(3), of "[0..<length (vehicles s)]"]
  then have "a < length ?vs1" using assms(3) by simp
  note r = fold_collideRemote_speed [OF this, of rps]
  show ?thesis
    using assms l r by (simp add: tickVehicleCollisions_def activeSpeed_def activeVehicle_def)
qed


lemma fold_upt_7: "fold f [0..<7] x = f 6 (f 5 (f 4 (f 3 (f 2 (f 1 (f 0 x))))))"
  by (simp add: upt_rec eval_nat_numeral)

lemma roster:
  "vehicles (inVehicle tp 0 p rot speed)
     = [carRed\<lparr>v_pos := p, v_rot := rot, v_speed := speed\<rparr>, carBlue,
        mkVehicle ''car-green'' car ''Green Machine'' ''#2a9d8f'' (Vector3 12 0 22) 0,
        mkVehicle ''car-orange'' car ''Orange Fury'' ''#e76f51'' (Vector3 18 0 10) 0,
        mkVehicle ''plane-blue'' airplane ''Sky Hawk'' ''#4488cc'' (Vector3 25 1.5 0) 0,
        mkVehicle ''plane-red'' airplane ''Red Baron'' ''#cc3333'' (Vector3 25 1.5 10) 0,
        mkVehicle ''plane-gold'' airplane ''Golden Eagle'' ''#d4a017'' (Vector3 25 1.5 20) 0]"
  by (simp add: inVehicle_def initialController_def makeVehicles_def carRed_def carBlue_def
      mkVehicle_def Let_def)

lemma session_0:
  "activeVehicle (inVehicle tp 0 p rot speed)
     = Some (0, carRed\<lparr>v_pos := p, v_rot := rot, v_speed := speed\<rparr>)"
  "activeIdx (inVehicle tp 0 p rot speed) = Some 0"
  "modeRef (inVehicle tp 0 p rot speed) = driving"
  "\<not> interactPressed (inVehicle tp 0 p rot speed)"
  "\<not> r_finished (race (inVehicle tp 0 p rot speed))"
  "boostMeter (inVehicle tp 0 p rot speed) = 100"
  "carVelY (inVehicle tp 0 p rot speed) = 0"
  "carOnGround (inVehicle tp 0 p rot speed)"
  by (simp_all add: inVehicle_def initialController_def makeVehicles_def activeVehicle_def
      carRed_def mkVehicle_def newRace_def Let_def)

lemma bounce_step:
  "vehicles (driveStep farTrack 0.05 fwdKeys 0 0
               (carRed\<lparr>v_pos := Vector3 12 0 14.75, v_rot := 0, v_speed := 90\<rparr>)
               (inVehicle farTrack 0 (Vector3 12 0 14.75) 0 90))
     = (vehicles (inVehicle farTrack 0 (Vector3 12 0 14.75) 0 90))
         [0 := carRed\<lparr>v_pos := Vector3 12 0 18, v_rot := 0, v_speed := 65\<rparr>]"
  unfolding driveStep_vehicles
  by (simp add: session_0 track_defs sqrt_compare fwdKeys_def noKeys_def driveThrottle_def
      driveAccelerate_def driveMaxSpd_def driveSteer_def sign_or_1_def moveAlong_def
      driveVertical_def setY_def carRed_def mkVehicle_def Let_def)

lemma bounce_collide:
  "v_speed (fold (collideLocal 0) [0..<7]
              ((vehicles (inVehicle farTrack 0 (Vector3 12 0 14.75) 0 90))
                 [0 := carRed\<lparr>v_pos := Vector3 12 0 18, v_rot := 0, v_speed := 65\<rparr>]) ! 0) = - 39"
  unfolding fold_upt_7 roster
  by (simp add: collide_defs carRed_def carBlue_def mkVehicle_def sqrt_compare Let_def)


lemma roster_length: "length (vehicles (inVehicle tp 0 p rot speed)) = 7"
  by (simp add: roster)

text \<open>
  The claim as stated keeps the driving speed in \<open>[-18, maxSpeed]\<close> at the end of every
  frame, collision bounce included.  The red car, off the road at 90 with the forward key,
  is clamped to 65 by the driving step; it ends the step 2 units past the parked blue car,
  heading away from it, and the resolver leaves the frame with a speed of \<open>-39\<close>.
\<close>

theorem speed_after_bounce_counterexample:
  "modeRef (inVehicle farTrack 0 (Vector3 12 0 14.75) 0 90) = driving
   \<and> activeSpeed (Inr (inVehicle farTrack 0 (Vector3 12 0 14.75) 0 90)) = Some 90
   \<and> activeSpeed (tickDriving farTrack 0.05 fwdKeys False 0
                    (inVehicle farTrack 0 (Vector3 12 0 14.75) 0 90)) = Some 65
   \<and> activeSpeed (simulate farTrack 0.05 fwdKeys noMouse {} [] 0
                    (inVehicle farTrack 0 (Vector3 12 0 14.75) 0 90)) = Some (- 39)
   \<and> (- 39 :: real) < - 18"
proof -
  define s where "s = inVehicle farTrack 0 (Vector3 12 0 14.75) 0 90"
  define v where "v = carRed\<lparr>v_pos := Vector3 12 0 14.75, v_rot := 0, v_speed := 90\<rparr>"
  define s1 where "s1 = driveStep farTrack 0.05 fwdKeys 0 0 v s"
  define s2 where "s2 = projectileFrame 0.05 s1"
  define w where "w = carRed\<lparr>v_pos := Vector3 12 0 18, v_rot := 0, v_speed := 65\<rparr>"
  have av: "activeVehicle s = Some (0, v)" unfolding s_def v_def by (rule session_0)
  have s0: "activeIdx s = Some 0" "modeRef s = driving" "\<not> interactPressed s"
    "\<not> r_finished (race s)" "length (vehicles s) = 7"
    unfolding s_def by (simp_all add: session_0 roster_length)
  have t: "tickDriving farTrack 0.05 fwdKeys False 0 s = Inr s1"
    unfolding s1_def using av s0(4) by (rule tickDriving_step)
  have vs1: "vehicles s1 = (vehicles s)[0 := w]"
    unfolding s1_def s_def v_def w_def by (rule bounce_step)
  have f1: "activeIdx s1 = Some 0" "modeRef s1 = driving" "length (vehicles s1) = 7"
    unfolding s1_def using s0 by (simp_all add: driveStep_frame)
  have a: "activeSpeed (Inr s) = Some 90"
    using av by (simp add: activeSpeed_def v_def)
  have b: "activeSpeed (Inr s1) = Some 65"
    using f1 s0(5) by (simp add: activeSpeed_def activeVehicle_def vs1 w_def)
  have f2: "modeRef s2 \<noteq> walking" "activeIdx s2 = Some 0" "0 < length (vehicles s2)"
    unfolding s2_def using f1 by (simp_all add: projectileFrame_frame)
  have vs2: "vehicles s2 = (vehicles s)[0 := w]"
    unfolding s2_def using vs1 by (simp add: projectileFrame_frame)
  have sim: "simulate farTrack 0.05 fwdKeys noMouse {} [] 0 s = tickVehicleCollisions [] s2"
    unfolding s2_def using s0(2) s0(3) t by (rule simulate_driving)
  have col: "v_speed (fold (collideLocal 0) [0..<7] ((vehicles s)[0 := w]) ! 0) = - 39"
    unfolding s_def w_def by (rule bounce_collide)
  have c: "activeSpeed (tickVehicleCollisions [] s2) = Some (- 39)"
    unfolding tickVehicleCollisions_activeSpeed [OF f2] vs2
    using col s0(5) by simp
  show ?thesis
    unfolding s_def [symmetric] t sim using a b c s0(2) by simp
qed

lemma offRoad_example: "\<not> isOnTrack farTrack (Vector3 12 0 14.75)"
  by (simp add: track_defs sqrt_compare Let_def)

section \<open>Headings\<close>


lemma driveStep_rot:
  assumes "i < length (vehicles s)"
  shows "v_rot (vehicles (driveStep tp dt k now i v s) ! i)
     = driveSteer dt k
         (driveThrottle dt k (k_shift k \<and> boostMeter s > 0 \<and> k_forward k)
            (isOnTrack tp (Vector3 (vx (v_pos v)) 0 (vz (v_pos v)))) (v_speed v))
         (v_rot v)"
  unfolding driveStep_vehicles using assms
  by (simp add: driveVertical_rot moveAlong_def)

lemma driveSteer_step: "0 \<le> dt \<Longrightarrow> \<bar>driveSteer dt k speed rot - rot\<bar> \<le> 2.2 * dt"
proof -
  assume dt: "0 \<le> dt"
  define turn :: real where "turn = (if k_left k then 1 else 0) - (if k_right k then 1 else 0)"
  define sf where "sf = min (\<bar>speed\<bar> / 8) 1"
  have e: "driveSteer dt k speed rot - rot = turn * 2.2 * sf * dt * sign_or_1 speed"
    by (simp add: driveSteer_def turn_def sf_def Let_def)
  have t: "\<bar>turn\<bar> \<le> 1" by (simp add: turn_def)
  have s: "\<bar>sf\<bar> \<le> 1" by (simp add: sf_def min_def)
  have g: "\<bar>sign_or_1 speed\<bar> \<le> 1" by (simp add: sign_or_1_def sgn_real_def)
  have "\<bar>turn * sf * sign_or_1 speed\<bar> \<le> 1 * 1 * 1"
    unfolding abs_mult by (intro mult_mono t s g) simp_all
  then have "\<bar>turn * sf * sign_or_1 speed\<bar> * (2.2 * dt) \<le> 1 * (2.2 * dt)"
    using dt by (intro mult_right_mono) simp_all
  moreover have "\<bar>turn * 2.2 * sf * dt * sign_or_1 speed\<bar>
      = \<bar>turn * sf * sign_or_1 speed\<bar> * (2.2 * dt)"
    using dt by (simp add: abs_mult)
  ultimately show ?thesis unfolding e by simp
qed

lemma wrap_down_bounds:
  "wrap_down d \<le> pi \<and> (d \<le> pi \<longrightarrow> wrap_down d = d) \<and> (- pi < d \<longrightarrow> - pi < wrap_down d)"
proof (induction d rule: wrap_down.induct)
  case (1 d)
  show ?case
  proof (cases "pi < d")
    case True
    have e: "wrap_down d = wrap_down (d - pi * 2)"
      using True by (subst wrap_down.simps) simp
    note ih = "1.IH" [OF True]
    show ?thesis
    proof (cases "d - pi * 2 \<le> pi")
      case small: True
      then have "wrap_down (d - pi * 2) = d - pi * 2" using ih by simp
      then show ?thesis unfolding e using True small by simp
    next
      case big: False
      then have "- pi < d - pi * 2" using pi_gt_zero by linarith
      then show ?thesis unfolding e using ih True by simp
    qed
  next
    case False
    then have "wrap_down d = d" by (subst wrap_down.simps) simp
    then show ?thesis using False by simp
  qed
qed

lemma wrap_up_bounds:
  "- pi \<le> wrap_up d \<and> (- pi \<le> d \<longrightarrow> wrap_up d = d) \<and> (d \<le> pi \<longrightarrow> wrap_up d \<le> pi)"
proof (induction d rule: wrap_up.induct)
  case (1 d)
  show ?case
  proof (cases "d < - pi")
    case True
    have e: "wrap_up d = wrap_up (d + pi * 2)"
      using True by (subst wrap_up.simps) simp
    note ih = "1.IH" [OF True]
    show ?thesis
    proof (cases "- pi \<le> d + pi * 2")
      case small: True
      then have "wrap_up (d + pi * 2) = d + pi * 2" using ih by simp
      then show ?thesis unfolding e using True small by simp
    next
      case big: False
      then have "d + pi * 2 \<le> pi" using pi_gt_zero by linarith
      then show ?thesis unfolding e using ih True by simp
    qed
  next
    case False
    then have "wrap_up d = d" by (subst wrap_up.simps) simp
    then show ?thesis using False by simp
  qed
qed

lemma wrapped_diff: "\<bar>wrap_up (wrap_down d)\<bar> \<le> pi"
  using wrap_down_bounds [of d] wrap_up_bounds [of "wrap_down d"] by (simp add: abs_le_iff)


lemma enterVehicle_charRot: "charRot (enterVehicle tp now s) = charRot s"
  by (simp add: enterVehicle_def Let_def split: option.splits)

lemma walkGround_charRot: "charRot (walkGround tp dt k camYaw s) = charRot s"
  by (simp add: walkGround_def Let_def split_beta)

lemma walkMove_charRot:
  assumes "0 \<le> dt"
  shows "\<bar>charRot (walkMove dt k s) - charRot s\<bar> \<le> pi"
proof -
  define mv where "mv = moveVector k (charRot s + orbitYawRef s)"
  define len where "len = sqrt (fst mv * fst mv + snd mv * snd mv)"
  define d where "d = Math_atan2 (fst mv / len) (snd mv / len) - charRot s"
  show ?thesis
  proof (cases "len > 0.001")
    case True
    then have e: "charRot (walkMove dt k s) = charRot s + wrap_up (wrap_down d) * min 1 (12 * dt)"
      unfolding walkMove_def Let_def split_beta d_def len_def mv_def by simp
    have m: "0 \<le> min 1 (12 * dt)" "min 1 (12 * dt) \<le> 1" using assms by simp_all
    have "\<bar>wrap_up (wrap_down d) * min 1 (12 * dt)\<bar> \<le> pi * 1"
      unfolding abs_mult using wrapped_diff [of d] m by (intro mult_mono) simp_all
    then show ?thesis unfolding e by simp
  next
    case False
    then have "charRot (walkMove dt k s) = charRot s"
      unfolding walkMove_def Let_def split_beta len_def mv_def by simp
    then show ?thesis by simp
  qed
qed

lemma tickWalking_charRot:
  "0 \<le> dt \<Longrightarrow> \<bar>charRot (tickWalking tp dt k justE taken now s) - charRot s\<bar> \<le> pi"
  using walkMove_charRot [of dt k s]
  by (simp add: tickWalking_def Let_def enterVehicle_charRot walkGround_charRot)

lemma flyStep_rot:
  "i < length (vehicles s) \<Longrightarrow>
   v_rot (vehicles (flyStep dt k mouse i v s) ! i)
     = v_rot v + (flyYawVel s + - m_dx mouse * 0.002) * (1 - 5 * dt) * dt"
  by (simp add: flyStep_def Let_def moveAlong_def setY_def)

lemma wrap_down_turns: "\<exists>n :: int. wrap_down d = d + 2 * pi * of_int n"
proof (induction d rule: wrap_down.induct)
  case (1 d)
  show ?case
  proof (cases "pi < d")
    case True
    have e: "wrap_down d = wrap_down (d - pi * 2)"
      using True by (subst wrap_down.simps) simp
    from "1.IH" [OF True] obtain n :: int
      where "wrap_down (d - pi * 2) = d - pi * 2 + 2 * pi * of_int n" by blast
    then have "wrap_down d = d + 2 * pi * of_int (n - 1)"
      unfolding e by (simp add: algebra_simps)
    then show ?thesis by blast
  next
    case False
    then have "wrap_down d = d + 2 * pi * of_int 0" by (subst wrap_down.simps) simp
    then show ?thesis by blast
  qed
qed

lemma wrap_up_turns: "\<exists>n :: int. wrap_up d = d + 2 * pi * of_int n"
proof (induction d rule: wrap_up.induct)
  case (1 d)
  show ?case
  proof (cases "d < - pi")
    case True
    have e: "wrap_up d = wrap_up (d + pi * 2)"
      using True by (subst wrap_up.simps) simp
    from "1.IH" [OF True] obtain n :: int
      where "wrap_up (d + pi * 2) = d + pi * 2 + 2 * pi * of_int n" by blast
    then have "wrap_up d = d + 2 * pi * of_int (n + 1)"
      unfolding e by (simp add: algebra_simps)
    then show ?thesis by blast
  next
    case False
    then have "wrap_up d = d + 2 * pi * of_int 0" by (subst wrap_up.simps) simp
    then show ?thesis by blast
  qed
qed

lemma wrapped_turns: "\<exists>n :: int. wrap_up (wrap_down d) = d + 2 * pi * of_int n"
proof -
  obtain n :: int where n: "wrap_down d = d + 2 * pi * of_int n"
    using wrap_down_turns by blast
  obtain m :: int where m: "wrap_up (wrap_down d) = wrap_down d + 2 * pi * of_int m"
    using wrap_up_turns by blast
  have "wrap_up (wrap_down d) = d + 2 * pi * of_int (n + m)"
    using m n by (simp add: algebra_simps)
  then show ?thesis by blast
qed

lemma walkMove_charRot_eq:
  "charRot (walkMove dt k s)
     = (let mv = moveVector k (charRot s + orbitYawRef s);
            len = sqrt (fst mv * fst mv + snd mv * snd mv);
            diff = wrap_up (wrap_down (Math_atan2 (fst mv / len) (snd mv / len) - charRot s))
        in if len > 0.001 then charRot s + diff * min 1 (12 * dt) else charRot s)"
  by (simp add: walkMove_def Let_def split_beta)

lemma tickWalking_charRot_eq:
  "charRot (tickWalking tp dt k justE taken now s) = charRot (walkMove dt k s)"
  by (simp add: tickWalking_def Let_def enterVehicle_charRot walkGround_charRot)

lemma driveSteer_eq:
  "driveSteer dt k c rot
     = rot + ((if k_left k then 1 else 0) - (if k_right k then 1 else 0)) * 2.2
             * min (\<bar>c\<bar> / 8) 1 * dt * (if c = 0 then 1 else sgn c)"
  by (simp add: driveSteer_def sign_or_1_def Let_def)

lemma exitVehicle_rot:
  "activeVehicle s = Some (i, v) \<Longrightarrow>
   \<exists>s'. exitVehicle tp s = Inr s' \<and> charRot s' = v_rot v \<and> v_rot (vehicles s' ! i) = v_rot v"
  by (auto simp: exitVehicle_def Let_def activeVehicle_def split: option.splits if_splits)

lemma tickFlying_exit_rot:
  assumes "activeVehicle s = Some (i, v)" "vy (v_pos v) \<le> FLY_groundY + 1"
  shows "\<exists>s'. tickFlying tp dt k True mouse s = Inr s' \<and> charRot s' = v_rot v
     \<and> v_rot (vehicles s' ! i) = v_rot v"
proof -
  note ix = activeVehicle_index [OF assms(1)]
  let ?w = "(setY FLY_groundY v)\<lparr>v_speed := 0, v_pitch := 0\<rparr>"
  let ?s = "s\<lparr>vehicles := (vehicles s)[i := ?w], flyYawVel := 0, flyPitchVel := 0\<rparr>"
  have av: "activeVehicle ?s = Some (i, ?w)" using ix by (simp add: activeVehicle_def)
  have t: "tickFlying tp dt k True mouse s = exitVehicle tp ?s"
    using assms by (simp add: tickFlying_def)
  have r: "v_rot ?w = v_rot v" by (simp add: setY_def)
  show ?thesis unfolding t using exitVehicle_rot [OF av, of tp] unfolding r .
qed


lemma flyStep_charRot: "charRot (flyStep dt k mouse i v s) = charRot s"
  by (simp add: flyStep_def Let_def)

text \<open>
  Claim C4, as amended.  No update wraps the heading.  A driving step changes the rotation
  of the active vehicle from \<open>r\<close> to \<open>r + turn * 2.2 * sf * dt * sign\<close>, where \<open>turn\<close> is
  1 for the left key minus 1 for the right key, \<open>sf = min (\<bar>c\<bar> / 8) 1\<close> for the speed \<open>c\<close>
  the step has clamped, and \<open>sign\<close> is the sign of \<open>c\<close>, or 1 when \<open>c = 0\<close>; for
  \<open>dt \<ge> 0\<close> the change is at most \<open>2.2 * dt\<close> in absolute value.  A flying step changes
  it to \<open>r + yawVel * dt\<close> with the damped yaw velocity
  \<open>yawVel = (flyYawVel - dx * 0.002) * (1 - 5 * dt)\<close>.  Leaving a vehicle, from a driving
  step or from a flying step at most one unit above the ground, copies the rotation of the
  vehicle to the character and leaves the vehicle's rotation as it was.  A walking step
  with a movement vector longer than 0.001 changes the character rotation from \<open>r\<close> to
  \<open>r + diff * min 1 (12 * dt)\<close>, where \<open>diff\<close> is the direction of movement minus \<open>r\<close>,
  moved by whole turns into \<open>[-\<pi>, \<pi>]\<close>; any other walking step leaves it unchanged; for
  \<open>dt \<ge> 0\<close> a walking step changes it by at most \<open>\<pi>\<close>.  Only that difference is wrapped:
  the heading itself is the sum of these increments and is not brought back into
  \<open>(-\<pi>, \<pi>]\<close>.
\<close>

theorem heading_accumulates_unwrapped:
  assumes "activeVehicle s = Some (i, v)" and "0 \<le> dt"
  shows "(\<not> r_finished (race s) \<longrightarrow>
           (\<exists>s1. tickDriving tp dt k False now s = Inr s1
              \<and> (let c = driveThrottle dt k (k_shift k \<and> boostMeter s > 0 \<and> k_forward k)
                            (isOnTrack tp (Vector3 (vx (v_pos v)) 0 (vz (v_pos v)))) (v_speed v);
                      turn = (if k_left k then 1 else 0) - (if k_right k then 1 else 0);
                      sf = min (\<bar>c\<bar> / 8) 1
                  in v_rot (vehicles s1 ! i)
                       = v_rot v + turn * DRIVE_turnSpeed * sf * dt * (if c = 0 then 1 else sgn c))
              \<and> \<bar>v_rot (vehicles s1 ! i) - v_rot v\<bar> \<le> DRIVE_turnSpeed * dt))
     \<and> (\<exists>s1. tickFlying tp dt k justE mouse s = Inr s1
            \<and> (if justE \<and> vy (v_pos v) \<le> FLY_groundY + 1
                then charRot s1 = v_rot v \<and> v_rot (vehicles s1 ! i) = v_rot v
                else charRot s1 = charRot s
                   \<and> v_rot (vehicles s1 ! i)
                       = v_rot v + (flyYawVel s + - m_dx mouse * 0.002) * (1 - 5 * dt) * dt))
     \<and> (\<exists>s1. tickDriving tp dt k True now s = Inr s1
            \<and> charRot s1 = v_rot v \<and> v_rot (vehicles s1 ! i) = v_rot v)
     \<and> (\<forall>s0. let mv = moveVector k (charRot s0 + orbitYawRef s0);
                 len = sqrt (fst mv * fst mv + snd mv * snd mv);
                 target = Math_atan2 (fst mv / len) (snd mv / len);
                 diff = wrap_up (wrap_down (target - charRot s0))
             in charRot (tickWalking tp dt k justE taken now s0)
                  = (if len > 0.001 then charRot s0 + diff * min 1 (12 * dt) else charRot s0)
              \<and> - pi \<le> diff \<and> diff \<le> pi
              \<and> (\<exists>n :: int. diff = target - charRot s0 + 2 * pi * of_int n)
              \<and> \<bar>charRot (tickWalking tp dt k justE taken now s0) - charRot s0\<bar> \<le> pi)"
proof (intro conjI impI allI)
  note ix = activeVehicle_index [OF assms(1)]
  have i: "i < length (vehicles s)" using ix by simp
  {
    assume nf: "\<not> r_finished (race s)"
    let ?c = "driveThrottle dt k (k_shift k \<and> boostMeter s > 0 \<and> k_forward k)
                (isOnTrack tp (Vector3 (vx (v_pos v)) 0 (vz (v_pos v)))) (v_speed v)"
    have t: "tickDriving tp dt k False now s = Inr (driveStep tp dt k now i v s)"
      using assms(1) nf by (rule tickDriving_step)
    have r: "v_rot (vehicles (driveStep tp dt k now i v s) ! i) = driveSteer dt k ?c (v_rot v)"
      using i by (rule driveStep_rot)
    have b: "\<bar>driveSteer dt k ?c (v_rot v) - v_rot v\<bar> \<le> 2.2 * dt"
      using assms(2) by (rule driveSteer_step)
    show "\<exists>s1. tickDriving tp dt k False now s = Inr s1
              \<and> (let c = ?c;
                      turn = (if k_left k then 1 else 0) - (if k_right k then 1 else 0);
                      sf = min (\<bar>c\<bar> / 8) 1
                  in v_rot (vehicles s1 ! i)
                       = v_rot v + turn * DRIVE_turnSpeed * sf * dt * (if c = 0 then 1 else sgn c))
              \<and> \<bar>v_rot (vehicles s1 ! i) - v_rot v\<bar> \<le> DRIVE_turnSpeed * dt"
      unfolding t Let_def using r b driveSteer_eq [of dt k ?c "v_rot v"] by simp
  }
  show "\<exists>s1. tickFlying tp dt k justE mouse s = Inr s1
            \<and> (if justE \<and> vy (v_pos v) \<le> FLY_groundY + 1
                then charRot s1 = v_rot v \<and> v_rot (vehicles s1 ! i) = v_rot v
                else charRot s1 = charRot s
                   \<and> v_rot (vehicles s1 ! i)
                       = v_rot v + (flyYawVel s + - m_dx mouse * 0.002) * (1 - 5 * dt) * dt)"
  proof (cases "justE \<and> vy (v_pos v) \<le> FLY_groundY + 1")
    case True
    then have j: "justE = True" and low: "vy (v_pos v) \<le> FLY_groundY + 1" by simp_all
    show ?thesis
      using tickFlying_exit_rot [OF assms(1) low, of tp dt k mouse] True unfolding j by auto
  next
    case False
    then have "tickFlying tp dt k justE mouse s = Inr (flyStep dt k mouse i v s)"
      using assms(1) by (auto simp add: tickFlying_def)
    then show ?thesis
      unfolding if_not_P [OF False]
      using flyStep_rot [OF i, of dt k mouse v] by (simp add: flyStep_charRot)
  qed
  show "\<exists>s1. tickDriving tp dt k True now s = Inr s1
            \<and> charRot s1 = v_rot v \<and> v_rot (vehicles s1 ! i) = v_rot v"
    using exitVehicle_rot [OF assms(1), of tp] by (simp add: tickDriving_def)
  fix s0 :: Controller
  define mv where "mv = moveVector k (charRot s0 + orbitYawRef s0)"
  define len where "len = sqrt (fst mv * fst mv + snd mv * snd mv)"
  define target where "target = Math_atan2 (fst mv / len) (snd mv / len)"
  define diff where "diff = wrap_up (wrap_down (target - charRot s0))"
  have e: "charRot (tickWalking tp dt k justE taken now s0)
             = (if len > 0.001 then charRot s0 + diff * min 1 (12 * dt) else charRot s0)"
    unfolding tickWalking_charRot_eq walkMove_charRot_eq Let_def
      diff_def target_def len_def mv_def by simp
  have b: "- pi \<le> diff" "diff \<le> pi"
    using wrapped_diff [of "target - charRot s0"] unfolding diff_def by (simp_all add: abs_le_iff)
  have n: "\<exists>n :: int. diff = target - charRot s0 + 2 * pi * of_int n"
    unfolding diff_def by (rule wrapped_turns)
  have w: "\<bar>charRot (tickWalking tp dt k justE taken now s0) - charRot s0\<bar> \<le> pi"
    using assms(2) by (rule tickWalking_charRot)
  show "let mv = moveVector k (charRot s0 + orbitYawRef s0);
            len = sqrt (fst mv * fst mv + snd mv * snd mv);
            target = Math_atan2 (fst mv / len) (snd mv / len);
            diff = wrap_up (wrap_down (target - charRot s0))
        in charRot (tickWalking tp dt k justE taken now s0)
             = (if len > 0.001 then charRot s0 + diff * min 1 (12 * dt) else charRot s0)
         \<and> - pi \<le> diff \<and> diff \<le> pi
         \<and> (\<exists>n :: int. diff = target - charRot s0 + 2 * pi * of_int n)
         \<and> \<bar>charRot (tickWalking tp dt k justE taken now s0) - charRot s0\<bar> \<le> pi"
    unfolding Let_def
    using e b n w unfolding diff_def target_def len_def mv_def by simp
qed

lemma steer_example:
  "driveSteer 0.05 leftKeys
     (driveThrottle 0.05 leftKeys (k_shift leftKeys \<and> (100 :: real) > 0 \<and> k_forward leftKeys)
        (isOnTrack farTrack (Vector3 12 0 14.75)) 20) pi = pi + 0.11"
  by (simp add: track_defs sqrt_compare leftKeys_def fwdKeys_def noKeys_def driveThrottle_def
      driveAccelerate_def driveMaxSpd_def driveSteer_def sign_or_1_def Let_def)

text \<open>
  The claim as stated keeps the heading in \<open>(-\<pi>, \<pi>]\<close>.  The red car heading \<open>\<pi>\<close> at
  speed 20, steering left for one frame of 0.05 s, ends the step with heading
  \<open>\<pi> + 0.11\<close>.
\<close>

theorem heading_leaves_interval_counterexample:
  "activeHeading (Inr (inVehicle farTrack 0 (Vector3 12 0 14.75) pi 20)) = Some pi
   \<and> activeHeading (tickDriving farTrack 0.05 leftKeys False 0
                      (inVehicle farTrack 0 (Vector3 12 0 14.75) pi 20)) = Some (pi + 0.11)
   \<and> \<not> pi + 0.11 \<le> pi"
proof -
  define s where "s = inVehicle farTrack 0 (Vector3 12 0 14.75) pi 20"
  define v where "v = carRed\<lparr>v_pos := Vector3 12 0 14.75, v_rot := pi, v_speed := 20\<rparr>"
  define s1 where "s1 = driveStep farTrack 0.05 leftKeys 0 0 v s"
  have av: "activeVehicle s = Some (0, v)" unfolding s_def v_def by (rule session_0)
  have s0: "activeIdx s = Some 0" "\<not> r_finished (race s)" "length (vehicles s) = 7"
    "boostMeter s = 100"
    unfolding s_def by (simp_all add: session_0 roster_length)
  have t: "tickDriving farTrack 0.05 leftKeys False 0 s = Inr s1"
    unfolding s1_def using av s0(2) by (rule tickDriving_step)
  have i: "0 < length (vehicles s)" using s0(3) by simp
  have vf: "Vector3 (vx (v_pos v)) 0 (vz (v_pos v)) = Vector3 12 0 14.75" "v_speed v = 20"
    "v_rot v = pi"
    unfolding v_def by simp_all
  have r: "v_rot (vehicles s1 ! 0) = pi + 0.11"
    unfolding s1_def driveStep_rot [OF i] vf s0(4) by (rule steer_example)
  have f1: "activeIdx s1 = Some 0" "length (vehicles s1) = 7"
    unfolding s1_def using s0 by (simp_all add: driveStep_frame)
  have a: "activeHeading (Inr s) = Some pi"
    using av by (simp add: activeHeading_def v_def)
  have b: "activeHeading (Inr s1) = Some (pi + 0.11)"
    using f1 r by (simp add: activeHeading_def activeVehicle_def)
  show ?thesis
    unfolding s_def [symmetric] t using a b by simp
qed

lemma clamp_example:
  "driveThrottle 0.05 leftKeys (k_shift leftKeys \<and> (100 :: real) > 0 \<and> k_forward leftKeys)
        (isOnTrack farTrack (Vector3 12 0 14.75)) 20 = 5379 / 250"
  by (simp add: track_defs sqrt_compare leftKeys_def fwdKeys_def noKeys_def driveThrottle_def
      driveAccelerate_def driveMaxSpd_def Let_def)

theorem heading_accumulates_unwrapped_witness:
  "activeVehicle (inVehicle farTrack 0 (Vector3 12 0 14.75) pi 20)
     = Some (0, carRed\<lparr>v_pos := Vector3 12 0 14.75, v_rot := pi, v_speed := 20\<rparr>)
   \<and> (0 :: real) \<le> 0.05
   \<and> \<not> r_finished (race (inVehicle farTrack 0 (Vector3 12 0 14.75) pi 20))
   \<and> (\<exists>s1. tickDriving farTrack 0.05 leftKeys False 0
                (inVehicle farTrack 0 (Vector3 12 0 14.75) pi 20) = Inr s1
          \<and> v_rot (vehicles s1 ! 0) = pi + 1 * 2.2 * 1 * 0.05 * 1)"
proof -
  define s where "s = inVehicle farTrack 0 (Vector3 12 0 14.75) pi 20"
  define v where "v = carRed\<lparr>v_pos := Vector3 12 0 14.75, v_rot := pi, v_speed := 20\<rparr>"
  have av: "activeVehicle s = Some (0, v)" unfolding s_def v_def by (rule session_0)
  have nf: "\<not> r_finished (race s)" unfolding s_def by (simp add: session_0)
  have bm: "boostMeter s = 100" unfolding s_def by (simp add: session_0)
  have z: "(0 :: real) \<le> 0.05" by simp
  have vf: "Vector3 (vx (v_pos v)) 0 (vz (v_pos v)) = Vector3 12 0 14.75" "v_speed v = 20"
    "v_rot v = pi"
    unfolding v_def by simp_all
  have k: "k_left leftKeys" "\<not> k_right leftKeys"
    by (simp_all add: leftKeys_def fwdKeys_def noKeys_def)
  from heading_accumulates_unwrapped [OF av z, where tp = farTrack and k = leftKeys and now = 0
      and mouse = noMouse and justE = False and taken = "{}"]
  have "\<exists>s1. tickDriving farTrack 0.05 leftKeys False 0 s = Inr s1
          \<and> v_rot (vehicles s1 ! 0) = pi + 1 * 2.2 * 1 * 0.05 * 1"
    using nf unfolding vf bm clamp_example Let_def by (auto simp add: k)
  then show ?thesis
    unfolding s_def [symmetric] v_def [symmetric] using av nf by simp
qed

section \<open>Collisions\<close>


lemma headOn_collide:
  "v_speed (fold (collideLocal 0) [0..<7]
              (vehicles (inVehicle farTrack 0 (Vector3 12 0 14) 0 30)) ! 0) = 30"
  unfolding fold_upt_7 roster
  by (simp add: collide_defs carRed_def carBlue_def mkVehicle_def sqrt_compare Let_def)

lemma away_collide:
  "v_speed (fold (collideLocal 0) [0..<7]
              (vehicles (inVehicle farTrack 0 (Vector3 12 0 18) 0 30)) ! 0) = - 18"
  unfolding fold_upt_7 roster
  by (simp add: collide_defs carRed_def carBlue_def mkVehicle_def sqrt_compare Let_def)

lemma collide_session:
  "activeSpeed (tickVehicleCollisions [] (inVehicle tp 0 p rot speed))
     = Some (v_speed (fold (collideLocal 0) [0..<7] (vehicles (inVehicle tp 0 p rot speed)) ! 0))"
proof -
  have f: "modeRef (inVehicle tp 0 p rot speed) \<noteq> walking"
    "activeIdx (inVehicle tp 0 p rot speed) = Some 0"
    "0 < length (vehicles (inVehicle tp 0 p rot speed))"
    by (simp_all add: session_0 roster_length)
  show ?thesis
    unfolding tickVehicleCollisions_activeSpeed [OF f] by (simp add: roster_length)
qed

text \<open>
  Claim C5 at its failing input.  The red car at \<open>(12, 14)\<close>, heading \<open>+z\<close> at speed 30,
  overlaps the parked blue car 2 units ahead of it: its velocity points at the obstacle.
  The resolver pushes the two cars apart by half the overlap each and leaves the speed at
  30, because the heading has a negative component along the normal, which points from the
  obstacle to the active vehicle.  The same car 2 units past the blue car, driving away
  from it, has its speed turned into \<open>-18\<close>.
\<close>

theorem head_on_collision_keeps_speed:
  "sin 0 * 30 * (12 - 12) + cos 0 * 30 * (16 - 14) > (0 :: real)
   \<and> resolveCollision 1.2 (carRed\<lparr>v_pos := Vector3 12 0 14, v_rot := 0, v_speed := 30\<rparr>)
         12 16 1.2 (Some (Vector3 12 0 16))
       = (carRed\<lparr>v_pos := Vector3 12 0 13.8, v_rot := 0, v_speed := 30\<rparr>,
          Some (Vector3 12 0 16.2))
   \<and> activeSpeed (tickVehicleCollisions [] (inVehicle farTrack 0 (Vector3 12 0 14) 0 30))
       = Some 30
   \<and> sin 0 * 30 * (12 - 12) + cos 0 * 30 * (16 - 18) < (0 :: real)
   \<and> resolveCollision 1.2 (carRed\<lparr>v_pos := Vector3 12 0 18, v_rot := 0, v_speed := 30\<rparr>)
         12 16 1.2 (Some (Vector3 12 0 16))
       = (carRed\<lparr>v_pos := Vector3 12 0 18.2, v_rot := 0, v_speed := - 18\<rparr>,
          Some (Vector3 12 0 15.8))
   \<and> activeSpeed (tickVehicleCollisions [] (inVehicle farTrack 0 (Vector3 12 0 18) 0 30))
       = Some (- 18)"
proof -
  have a: "resolveCollision 1.2 (carRed\<lparr>v_pos := Vector3 12 0 14, v_rot := 0, v_speed := 30\<rparr>)
         12 16 1.2 (Some (Vector3 12 0 16))
       = (carRed\<lparr>v_pos := Vector3 12 0 13.8, v_rot := 0, v_speed := 30\<rparr>,
          Some (Vector3 12 0 16.2))"
    by (simp add: resolveCollision_def carRed_def mkVehicle_def Let_def)
  have b: "resolveCollision 1.2 (carRed\<lparr>v_pos := Vector3 12 0 18, v_rot := 0, v_speed := 30\<rparr>)
         12 16 1.2 (Some (Vector3 12 0 16))
       = (carRed\<lparr>v_pos := Vector3 12 0 18.2, v_rot := 0, v_speed := - 18\<rparr>,
          Some (Vector3 12 0 15.8))"
    by (simp add: resolveCollision_def carRed_def mkVehicle_def Let_def)
  have c: "activeSpeed (tickVehicleCollisions [] (inVehicle farTrack 0 (Vector3 12 0 14) 0 30))
       = Some 30"
    unfolding collide_session headOn_collide by (rule refl)
  have d: "activeSpeed (tickVehicleCollisions [] (inVehicle farTrack 0 (Vector3 12 0 18) 0 30))
       = Some (- 18)"
    unfolding collide_session away_collide by (rule refl)
  have e: "sin 0 * 30 * (12 - 12) + cos 0 * 30 * (16 - 14) > (0 :: real)"
    "sin 0 * 30 * (12 - 12) + cos 0 * 30 * (16 - 18) < (0 :: real)" by simp_all
  show ?thesis using a b c d e by blast
qed


section \<open>The leaderboard handler\<close>


lemma findIndex_None: "findIndex P xs = None \<longleftrightarrow> (\<forall>x\<in>set xs. \<not> P x)"
  by (induction xs) auto

lemma findIndex_Some:
  "findIndex P xs = Some i \<Longrightarrow> i < length xs \<and> P (xs ! i) \<and> (\<forall>j<i. \<not> P (xs ! j))"
proof (induction xs arbitrary: i)
  case Nil
  then show ?case by simp
next
  case (Cons x xs)
  show ?case
  proof (cases "P x")
    case True
    then show ?thesis using Cons.prems by simp
  next
    case False
    then obtain i' where i': "findIndex P xs = Some i'" "i = Suc i'"
      using Cons.prems by auto
    from Cons.IH [OF i'(1)] False i'(2) show ?thesis
      by (auto simp: less_Suc_eq_0_disj)
  qed
qed

lemma post_invalid:
  "body_name body = None \<or> body_name body = Some [] \<or> body_time body = None
     \<or> (\<exists>t. body_time body = Some t \<and> t \<le> 0) \<Longrightarrow>
   postLeaderboard writeOk now body file = (BadRequest, file)"
  by (auto simp: postLeaderboard_def split: option.splits)

lemma post_valid:
  assumes "body_name body = Some name" "name \<noteq> []" "body_time body = Some time" "0 < time"
  shows "postLeaderboard writeOk now body file
     = (Success (case findIndex (\<lambda>e. e_time e = time \<and> e_name e = name)
                       (take 200 (sort_key e_time
                          (loadLeaderboard file
                           @ [\<lparr>e_name = take 20 name, e_time = time, e_date = now\<rparr>]))) of
                   None \<Rightarrow> 0 | Some i \<Rightarrow> i + 1),
        if writeOk
        then Some (take 200 (sort_key e_time
                     (loadLeaderboard file
                      @ [\<lparr>e_name = take 20 name, e_time = time, e_date = now\<rparr>])))
        else file)"
  using assms by (simp add: postLeaderboard_def Let_def saveLeaderboard_def)

lemma stored_sorted: "sorted (map f (take n (sort_key f xs)))"
proof -
  have "sorted (take n (map f (sort_key f xs)))"
    by (intro sorted_wrt_take) simp
  then show ?thesis by (simp add: take_map)
qed


text \<open>
  Claim C6, as amended.  A body without a name (absent or empty) or without a positive
  time is answered with status 400 and the store is left as it was.  Otherwise the entry
  with the name cut to 20 characters, the time and the current date is appended, the list
  is sorted by time (stably) and cut to its first 200 entries, that list is what is written
  to the store, and the answer is a success with a rank.  For a name of at most 20
  characters the rank is the 1-based position of the first stored entry with the given
  time and name, and 0 when the stored list holds none; it is the position of the new
  entry itself when that entry survived the cut and no entry stored before had the same
  name and time.
\<close>

theorem post_leaderboard_rank:
  shows "(body_name body = None \<or> body_name body = Some [] \<or> body_time body = None
           \<or> (\<exists>t. body_time body = Some t \<and> t \<le> 0)
          \<longrightarrow> postLeaderboard writeOk now body file = (BadRequest, file))
     \<and> (body_name body = Some name \<and> name \<noteq> [] \<and> body_time body = Some time \<and> 0 < time
          \<longrightarrow> (\<exists>rank stored entry.
                 entry = \<lparr>e_name = take 20 name, e_time = time, e_date = now\<rparr>
                 \<and> stored = take 200 (sort_key e_time (loadLeaderboard file @ [entry]))
                 \<and> postLeaderboard writeOk now body file
                     = (Success rank, if writeOk then Some stored else file)
                 \<and> sorted (map e_time stored) \<and> length stored \<le> 200
                 \<and> (length name \<le> 20 \<longrightarrow>
                       (rank = 0 \<longleftrightarrow> (\<forall>x\<in>set stored. \<not> (e_time x = time \<and> e_name x = name)))
                     \<and> (0 < rank \<longrightarrow>
                           rank \<le> length stored
                           \<and> e_time (stored ! (rank - 1)) = time
                           \<and> e_name (stored ! (rank - 1)) = name
                           \<and> (\<forall>j<rank - 1. \<not> (e_time (stored ! j) = time
                                                  \<and> e_name (stored ! j) = name)))
                     \<and> (entry \<in> set stored
                          \<and> (\<forall>x\<in>set (loadLeaderboard file). \<not> (e_time x = time \<and> e_name x = name))
                         \<longrightarrow> 0 < rank \<and> stored ! (rank - 1) = entry))))"
proof (intro conjI impI)
  assume "body_name body = None \<or> body_name body = Some [] \<or> body_time body = None
           \<or> (\<exists>t. body_time body = Some t \<and> t \<le> 0)"
  then show "postLeaderboard writeOk now body file = (BadRequest, file)"
    by (rule post_invalid)
next
  assume v: "body_name body = Some name \<and> name \<noteq> [] \<and> body_time body = Some time \<and> 0 < time"
  define entry where "entry = \<lparr>e_name = take 20 name, e_time = time, e_date = now\<rparr>"
  define stored where "stored = take 200 (sort_key e_time (loadLeaderboard file @ [entry]))"
  define P :: "LeaderboardEntry \<Rightarrow> bool"
    where "P = (\<lambda>e. e_time e = time \<and> e_name e = name)"
  define rank where "rank = (case findIndex P stored of None \<Rightarrow> 0 | Some i \<Rightarrow> i + 1)"
  have post: "postLeaderboard writeOk now body file
                = (Success rank, if writeOk then Some stored else file)"
    unfolding rank_def stored_def entry_def P_def
    using v by (intro post_valid) simp_all
  have srt: "sorted (map e_time stored)" unfolding stored_def by (rule stored_sorted)
  have len: "length stored \<le> 200" unfolding stored_def by simp
  have sub: "set stored \<subseteq> set (loadLeaderboard file) \<union> {entry}"
    unfolding stored_def using set_take_subset [of 200 "sort_key e_time (loadLeaderboard file @ [entry])"]
    by auto
  have zero: "rank = 0 \<longleftrightarrow> (\<forall>x\<in>set stored. \<not> P x)"
    unfolding rank_def using findIndex_None [of P stored] by (auto split: option.splits)
  have pos: "0 < rank \<longrightarrow> rank \<le> length stored \<and> P (stored ! (rank - 1))
               \<and> (\<forall>j<rank - 1. \<not> P (stored ! j))"
  proof
    assume "0 < rank"
    then obtain i where i: "findIndex P stored = Some i" "rank = i + 1"
      unfolding rank_def by (auto split: option.splits)
    from findIndex_Some [OF i(1)] i(2)
    show "rank \<le> length stored \<and> P (stored ! (rank - 1)) \<and> (\<forall>j<rank - 1. \<not> P (stored ! j))"
      by simp
  qed
  have own: "length name \<le> 20 \<longrightarrow> entry \<in> set stored
                \<and> (\<forall>x\<in>set (loadLeaderboard file). \<not> P x)
              \<longrightarrow> 0 < rank \<and> stored ! (rank - 1) = entry"
  proof (intro impI)
    assume n: "length name \<le> 20"
    assume a: "entry \<in> set stored \<and> (\<forall>x\<in>set (loadLeaderboard file). \<not> P x)"
    have "P entry" using n by (simp add: P_def entry_def)
    then have r: "0 < rank" using zero a by auto
    then have i: "rank - 1 < length stored" and p: "P (stored ! (rank - 1))" using pos by auto
    have "stored ! (rank - 1) \<in> set stored" using i by simp
    then have "stored ! (rank - 1) \<in> set (loadLeaderboard file) \<union> {entry}" using sub by blast
    then have "stored ! (rank - 1) = entry" using p a by auto
    then show "0 < rank \<and> stored ! (rank - 1) = entry" using r by simp
  qed
  show "\<exists>rank stored entry.
                 entry = \<lparr>e_name = take 20 name, e_time = time, e_date = now\<rparr>
                 \<and> stored = take 200 (sort_key e_time (loadLeaderboard file @ [entry]))
                 \<and> postLeaderboard writeOk now body file
                     = (Success rank, if writeOk then Some stored else file)
                 \<and> sorted (map e_time stored) \<and> length stored \<le> 200
                 \<and> (length name \<le> 20 \<longrightarrow>
                       (rank = 0 \<longleftrightarrow> (\<forall>x\<in>set stored. \<not> (e_time x = time \<and> e_name x = name)))
                     \<and> (0 < rank \<longrightarrow>
                           rank \<le> length stored
                           \<and> e_time (stored ! (rank - 1)) = time
                           \<and> e_name (stored ! (rank - 1)) = name
                           \<and> (\<forall>j<rank - 1. \<not> (e_time (stored ! j) = time
                                                  \<and> e_name (stored ! j) = name)))
                     \<and> (entry \<in> set stored
                          \<and> (\<forall>x\<in>set (loadLeaderboard file). \<not> (e_time x = time \<and> e_name x = name))
                         \<longrightarrow> 0 < rank \<and> stored ! (rank - 1) = entry))"
  proof (intro exI conjI impI)
    show "entry = \<lparr>e_name = take 20 name, e_time = time, e_date = now\<rparr>" by (rule entry_def)
    show "stored = take 200 (sort_key e_time (loadLeaderboard file @ [entry]))" by (rule stored_def)
    show "postLeaderboard writeOk now body file
            = (Success rank, if writeOk then Some stored else file)" by (rule post)
    show "sorted (map e_time stored)" by (rule srt)
    show "length stored \<le> 200" by (rule len)
    show "rank = 0 \<longleftrightarrow> (\<forall>x\<in>set stored. \<not> (e_time x = time \<and> e_name x = name))"
      using zero by (simp add: P_def)
  next
    assume "0 < rank"
    then have p: "rank \<le> length stored \<and> P (stored ! (rank - 1))
               \<and> (\<forall>j<rank - 1. \<not> P (stored ! j))" using pos by simp
    show "rank \<le> length stored" using p by simp
    show "e_time (stored ! (rank - 1)) = time" using p by (simp add: P_def)
    show "e_name (stored ! (rank - 1)) = name" using p by (simp add: P_def)
    show "\<forall>j<rank - 1. \<not> (e_time (stored ! j) = time \<and> e_name (stored ! j) = name)"
      using p by (simp add: P_def)
  next
    assume n: "length name \<le> 20"
    assume a: "entry \<in> set stored
        \<and> (\<forall>x\<in>set (loadLeaderboard file). \<not> (e_time x = time \<and> e_name x = name))"
    then have g: "0 < rank \<and> stored ! (rank - 1) = entry" using own n by (simp add: P_def)
    show "0 < rank" using g by simp
    show "stored ! (rank - 1) = entry" using g by simp
  qed
qed


lemma fullBoard_facts:
  "length fullBoard = 200"
  "sorted (map e_time fullBoard)"
  "\<forall>x\<in>set fullBoard. e_time x \<le> 90000 \<and> e_name x = ''Ace''"
proof -
  show "length fullBoard = 200" by (simp add: fullBoard_def)
  have "sorted_wrt (\<lambda>i j. 60000 + real i \<le> 60000 + real j) [0..<200]"
    by (rule sorted_wrt_mono_rel [of _ "(\<le>)"]) simp_all
  then show "sorted (map e_time fullBoard)"
    by (simp add: fullBoard_def sorted_wrt_map comp_def)
  show "\<forall>x\<in>set fullBoard. e_time x \<le> 90000 \<and> e_name x = ''Ace''"
    by (auto simp: fullBoard_def)
qed

lemma fullBoard_post:
  "take 200 (sort_key e_time (fullBoard @ [\<lparr>e_name = n, e_time = 90000, e_date = d\<rparr>]))
     = fullBoard"
proof -
  have "sorted (map e_time (fullBoard @ [\<lparr>e_name = n, e_time = 90000, e_date = d\<rparr>]))"
    using fullBoard_facts(2,3) by (auto simp: sorted_append)
  then have "sort_key e_time (fullBoard @ [\<lparr>e_name = n, e_time = 90000, e_date = d\<rparr>])
      = fullBoard @ [\<lparr>e_name = n, e_time = 90000, e_date = d\<rparr>]"
    by (rule sort_key_id_if_sorted)
  then show ?thesis using fullBoard_facts(1) by simp
qed

text \<open>
  The claim as stated makes the rank the position of the inserted entry.  Posting a lap
  that equals a stored one in name and time answers with rank 1 while the new entry is
  stored second; posting a lap slower than the 200 stored ones answers with rank 0 and
  leaves the store without the new entry.
\<close>

theorem post_leaderboard_rank_counterexample:
  "postLeaderboard True ''2026-01-02T09:00:00.000Z'' aceBody (Some [aceEntry])
     = (Success 1, Some [aceEntry, aceEntry\<lparr>e_date := ''2026-01-02T09:00:00.000Z''\<rparr>])
   \<and> [aceEntry, aceEntry\<lparr>e_date := ''2026-01-02T09:00:00.000Z''\<rparr>] ! (1 - 1)
       \<noteq> aceEntry\<lparr>e_date := ''2026-01-02T09:00:00.000Z''\<rparr>
   \<and> postLeaderboard True ''2026-01-02T09:00:00.000Z'' slowBody (Some fullBoard)
     = (Success 0, Some fullBoard)"
proof -
  have a: "postLeaderboard True ''2026-01-02T09:00:00.000Z'' aceBody (Some [aceEntry])
     = (Success 1, Some [aceEntry, aceEntry\<lparr>e_date := ''2026-01-02T09:00:00.000Z''\<rparr>])"
    by (simp add: postLeaderboard_def aceBody_def aceEntry_def loadLeaderboard_def
        saveLeaderboard_def Let_def)
  have b: "[aceEntry, aceEntry\<lparr>e_date := ''2026-01-02T09:00:00.000Z''\<rparr>] ! (1 - 1)
       \<noteq> aceEntry\<lparr>e_date := ''2026-01-02T09:00:00.000Z''\<rparr>"
    by (simp add: aceEntry_def)
  have nf: "findIndex (\<lambda>e. e_time e = 90000 \<and> e_name e = ''Bob'') fullBoard = None"
    using fullBoard_facts(3) by (simp add: findIndex_None)
  have v: "body_name slowBody = Some ''Bob''" "''Bob'' \<noteq> []" "body_time slowBody = Some 90000"
    "(0 :: real) < 90000"
    by (simp_all add: slowBody_def)
  have c: "postLeaderboard True ''2026-01-02T09:00:00.000Z'' slowBody (Some fullBoard)
     = (Success 0, Some fullBoard)"
    unfolding post_valid [OF v] loadLeaderboard_def option.case take_Suc_Cons take_0
      fullBoard_post nf
    by simp
  show ?thesis using a b c by blast
qed

theorem post_leaderboard_rank_witness:
  "body_name aceBody = Some ''Ace'' \<and> ''Ace'' \<noteq> [] \<and> body_time aceBody = Some 65000
   \<and> (0 :: real) < 65000
   \<and> postLeaderboard True ''2026-01-01T10:00:00.000Z'' aceBody None = (Success 1, Some [aceEntry])
   \<and> postLeaderboard True ''2026-01-01T10:00:00.000Z''
        \<lparr>body_name = None, body_time = Some 65000\<rparr> None = (BadRequest, None)"
  using post_leaderboard_rank [of "\<lparr>body_name = None, body_time = Some 65000\<rparr>" True
      "''2026-01-01T10:00:00.000Z''" None "''Ace''" 65000]
    post_leaderboard_rank [of aceBody True "''2026-01-01T10:00:00.000Z''" None "''Ace''" 65000]
  by (simp add: postLeaderboard_def aceBody_def aceEntry_def loadLeaderboard_def
      saveLeaderboard_def Let_def)


text \<open>
  A name longer than 20 characters is stored cut, and then matches no stored entry: the
  answer is rank 0 although the entry is stored first.
\<close>

lemma post_long_name:
  "postLeaderboard True ''2026-01-02T09:00:00.000Z''
     \<lparr>body_name = Some ''ABCDEFGHIJKLMNOPQRSTUVWXYZ'', body_time = Some 65000\<rparr> None
     = (Success 0, Some [\<lparr>e_name = ''ABCDEFGHIJKLMNOPQRST'', e_time = 65000,
                          e_date = ''2026-01-02T09:00:00.000Z''\<rparr>])"
  by (simp add: postLeaderboard_def loadLeaderboard_def saveLeaderboard_def Let_def)
section \<open>The position the lap tracker sees\<close>


lemma nearest_scan_skip:
  "\<not> less_num ((vx pos - vx p) * (vx pos - vx p) + (vz pos - vz p) * (vz pos - vz p)) m \<Longrightarrow>
   nearest_scan pos (replicate n p @ ps) i m idx = nearest_scan pos ps (i + n) m idx"
  by (induction n arbitrary: i) (simp_all add: Let_def)

lemma nearest_scan_first:
  "nearest_scan pos (replicate (Suc n) p @ ps) 0 Infinity 0
     = nearest_scan pos ps (Suc n)
         (Num ((vx pos - vx p) * (vx pos - vx p) + (vz pos - vz p) * (vz pos - vz p))) 0"
  using nearest_scan_skip [of pos p "Num ((vx pos - vx p) * (vx pos - vx p) + (vz pos - vz p) * (vz pos - vz p))" n ps 1 0]
  by (simp add: Let_def)

lemma postTrack_samples:
  "sampledPoints postTrack
     = replicate (Suc 98) (Vector3 1000 0 0) @ [Vector3 12 0 10, Vector3 12 0 (29 / 2)]"
  "TRACK_WIDTH postTrack = 18" "TRACK_SAMPLES postTrack = 500" "NUM_CHECKPOINTS postTrack = 4"
  "TOTAL_LAPS postTrack = 3"
  by (simp_all add: postTrack_def trackPath_def)

lemma postTrack_start:
  "getNearestTrackInfo postTrack (Vector3 12 0 10)
     = \<lparr>n_point = Some (Vector3 12 0 10), n_t = 99 / 500, n_distance = Num 0\<rparr>"
  unfolding getNearestTrackInfo_def postTrack_samples nearest_scan_first
  by (simp add: nth_opt_def Let_def nth_append)

lemma postTrack_end:
  "getNearestTrackInfo postTrack (Vector3 12 0 (29 / 2))
     = \<lparr>n_point = Some (Vector3 12 0 (29 / 2)), n_t = 1 / 5, n_distance = Num 0\<rparr>"
  unfolding getNearestTrackInfo_def postTrack_samples nearest_scan_first
  by (simp add: nth_opt_def Let_def nth_append)


lemma driveVertical_xz:
  "(vx (v_pos (fst (driveVertical tp dt k (v, velY, og)))) = vx (v_pos v)
    \<and> vz (v_pos (fst (driveVertical tp dt k (v, velY, og)))) = vz (v_pos v))
   \<or> (vx (v_pos (fst (driveVertical tp dt k (v, velY, og))))
         = vx (v_pos v) - sin (v_rot v) * v_speed v * dt
    \<and> vz (v_pos (fst (driveVertical tp dt k (v, velY, og))))
         = vz (v_pos v) - cos (v_rot v) * v_speed v * dt)"
  by (simp add: driveVertical_def Let_def split_beta setY_def)

lemma driveStep_xz:
  assumes "i < length (vehicles s)"
  shows "(let c = driveThrottle dt k (k_shift k \<and> boostMeter s > 0 \<and> k_forward k)
                    (isOnTrack tp (Vector3 (vx (v_pos v)) 0 (vz (v_pos v)))) (v_speed v);
              rot1 = driveSteer dt k c (v_rot v);
              p1 = v_pos (vehicles (driveStep tp dt k now i v s) ! i)
          in (vx p1 = vx (v_pos v) + sin rot1 * c * dt \<and> vz p1 = vz (v_pos v) + cos rot1 * c * dt)
           \<or> (vx p1 = vx (v_pos v) \<and> vz p1 = vz (v_pos v)))"
proof -
  let ?c = "driveThrottle dt k (k_shift k \<and> boostMeter s > 0 \<and> k_forward k)
               (isOnTrack tp (Vector3 (vx (v_pos v)) 0 (vz (v_pos v)))) (v_speed v)"
  let ?v1 = "moveAlong dt (v\<lparr>v_speed := ?c, v_rot := driveSteer dt k ?c (v_rot v)\<rparr>)"
  have e: "vehicles (driveStep tp dt k now i v s) ! i
             = fst (driveVertical tp dt k (?v1, carVelY s, carOnGround s))"
    using assms by (simp add: driveStep_def Let_def split_beta)
  have c: "v_speed ?v1 = ?c" "v_rot ?v1 = driveSteer dt k ?c (v_rot v)"
    "vx (v_pos ?v1) = vx (v_pos v) + sin (driveSteer dt k ?c (v_rot v)) * ?c * dt"
    "vz (v_pos ?v1) = vz (v_pos v) + cos (driveSteer dt k ?c (v_rot v)) * ?c * dt"
    by (simp_all add: moveAlong_def)
  show ?thesis
    unfolding Let_def e
    using driveVertical_xz [of tp dt k ?v1 "carVelY s" "carOnGround s"] unfolding c by auto
qed

text \<open>
  Claim C9.  A driving step feeds the lap tracker the curve parameter of the sample
  nearest to the horizontal position the vehicle had when the step began: inside the
  distance gate at that position the race record after the step is the tracker's result
  for that parameter, which is also the parameter stored, and outside the gate the record
  is unchanged.  The step itself moves the vehicle by the clamped speed along the new
  heading, or leaves it where it was when it ran into a wall.  The position the step
  ends at is the one the following step feeds to the tracker, so a crossing produced by
  the movement of a step is detected in the following step and not before.
\<close>

theorem lap_parameter_from_start_position:
  assumes "activeVehicle s = Some (i, v)" and "\<not> r_finished (race s)"
  shows "\<exists>s1. tickDriving tp dt k False now s = Inr s1
     \<and> (let nearest = getNearestTrackInfo tp (Vector3 (vx (v_pos v)) 0 (vz (v_pos v)))
        in if num_less (n_distance nearest) (TRACK_WIDTH tp * 1.2)
           then race s1 = fst (lapTrack tp (n_t nearest) now (race s))
              \<and> fired s1 = fired s @ snd (lapTrack tp (n_t nearest) now (race s))
              \<and> r_lastT (race s1) = n_t nearest
           else race s1 = race s \<and> fired s1 = fired s)
     \<and> activeVehicle s1 = Some (i, vehicles s1 ! i)
     \<and> (let c = driveThrottle dt k (k_shift k \<and> boostMeter s > 0 \<and> k_forward k)
                   (isOnTrack tp (Vector3 (vx (v_pos v)) 0 (vz (v_pos v)))) (v_speed v);
             rot1 = driveSteer dt k c (v_rot v);
             p1 = v_pos (vehicles s1 ! i)
         in (vx p1 = vx (v_pos v) + sin rot1 * c * dt \<and> vz p1 = vz (v_pos v) + cos rot1 * c * dt)
          \<or> (vx p1 = vx (v_pos v) \<and> vz p1 = vz (v_pos v)))
     \<and> (\<not> r_finished (race s1) \<longrightarrow>
          (\<exists>s2. tickDriving tp dt2 k2 False now2 s1 = Inr s2
             \<and> (let p1 = v_pos (vehicles s1 ! i);
                     nearest = getNearestTrackInfo tp (Vector3 (vx p1) 0 (vz p1))
                 in if num_less (n_distance nearest) (TRACK_WIDTH tp * 1.2)
                    then race s2 = fst (lapTrack tp (n_t nearest) now2 (race s1))
                       \<and> r_lastT (race s2) = n_t nearest
                    else race s2 = race s1)))"
proof -
  let ?s1 = "driveStep tp dt k now i v s"
  let ?p = "Vector3 (vx (v_pos v)) 0 (vz (v_pos v))"
  note ix = activeVehicle_index [OF assms(1)]
  have 1: "tickDriving tp dt k False now s = Inr ?s1"
    using assms by (rule tickDriving_step)
  have a: "let nearest = getNearestTrackInfo tp ?p
        in if num_less (n_distance nearest) (TRACK_WIDTH tp * 1.2)
           then race ?s1 = fst (lapTrack tp (n_t nearest) now (race s))
              \<and> fired ?s1 = fired s @ snd (lapTrack tp (n_t nearest) now (race s))
              \<and> r_lastT (race ?s1) = n_t nearest
           else race ?s1 = race s \<and> fired ?s1 = fired s"
    by (simp add: driveStep_race driveLap_def lapTrack_lastT Let_def)
  have av1: "activeVehicle ?s1 = Some (i, vehicles ?s1 ! i)"
    using ix by (simp add: activeVehicle_def driveStep_frame)
  have mv: "let c = driveThrottle dt k (k_shift k \<and> boostMeter s > 0 \<and> k_forward k)
                   (isOnTrack tp (Vector3 (vx (v_pos v)) 0 (vz (v_pos v)))) (v_speed v);
             rot1 = driveSteer dt k c (v_rot v);
             p1 = v_pos (vehicles ?s1 ! i)
         in (vx p1 = vx (v_pos v) + sin rot1 * c * dt \<and> vz p1 = vz (v_pos v) + cos rot1 * c * dt)
          \<or> (vx p1 = vx (v_pos v) \<and> vz p1 = vz (v_pos v))"
    using ix by (intro driveStep_xz) simp
  have b: "\<not> r_finished (race ?s1) \<longrightarrow>
          (\<exists>s2. tickDriving tp dt2 k2 False now2 ?s1 = Inr s2
             \<and> (let p1 = v_pos (vehicles ?s1 ! i);
                     nearest = getNearestTrackInfo tp (Vector3 (vx p1) 0 (vz p1))
                 in if num_less (n_distance nearest) (TRACK_WIDTH tp * 1.2)
                    then race s2 = fst (lapTrack tp (n_t nearest) now2 (race ?s1))
                       \<and> r_lastT (race s2) = n_t nearest
                    else race s2 = race ?s1))"
  proof
    assume nf: "\<not> r_finished (race ?s1)"
    have 2: "tickDriving tp dt2 k2 False now2 ?s1
               = Inr (driveStep tp dt2 k2 now2 i (vehicles ?s1 ! i) ?s1)"
      using av1 nf by (rule tickDriving_step)
    show "\<exists>s2. tickDriving tp dt2 k2 False now2 ?s1 = Inr s2
             \<and> (let p1 = v_pos (vehicles ?s1 ! i);
                     nearest = getNearestTrackInfo tp (Vector3 (vx p1) 0 (vz p1))
                 in if num_less (n_distance nearest) (TRACK_WIDTH tp * 1.2)
                    then race s2 = fst (lapTrack tp (n_t nearest) now2 (race ?s1))
                       \<and> r_lastT (race s2) = n_t nearest
                    else race s2 = race ?s1)"
      unfolding 2
      by (simp add: driveStep_race [of tp dt2 k2 now2 i "vehicles ?s1 ! i" ?s1] driveLap_def
          lapTrack_lastT Let_def)
  qed
  show ?thesis
    unfolding 1 using a av1 mv b by blast
qed


text \<open>
  The red car on sample 99 at full speed: the step takes it 4.5 units ahead onto sample
  100, across the first checkpoint, and stores the parameter of sample 99 with no
  checkpoint marked; the checkpoint is marked by the next step.
\<close>

lemma post_step:
  "vehicles (driveStep postTrack 0.05 fwdKeys 0 0
               (carRed\<lparr>v_pos := Vector3 12 0 10, v_rot := 0, v_speed := 90\<rparr>)
               (inVehicle postTrack 0 (Vector3 12 0 10) 0 90))
     = (vehicles (inVehicle postTrack 0 (Vector3 12 0 10) 0 90))
         [0 := carRed\<lparr>v_pos := Vector3 12 0 (29 / 2), v_rot := 0, v_speed := 90\<rparr>]"
  unfolding driveStep_vehicles
  by (simp add: session_0 isOnTrack_def getTrackElevation_def getGroundHeight_def
      postTrack_start postTrack_end postTrack_samples fwdKeys_def noKeys_def driveThrottle_def
      driveAccelerate_def driveMaxSpd_def driveSteer_def sign_or_1_def moveAlong_def
      driveVertical_def setY_def carRed_def mkVehicle_def Let_def)

lemma post_race_1:
  "fst (lapTrack postTrack (99 / 500) 0 (newRace postTrack 0))
     = (newRace postTrack 0)\<lparr>r_started := True, r_lastT := 99 / 500\<rparr>"
  by (simp add: lapTrack_def markStarted_def markCrossed_def newRace_def getCheckpointTs_def
      postTrack_samples js_get_def js_set_def Let_def upt_rec)

lemma post_race_2:
  "r_checkpoints (fst (lapTrack postTrack (1 / 5) 50
                    ((newRace postTrack 0)\<lparr>r_started := True, r_lastT := 99 / 500\<rparr>)))
     = [Some True, Some False, Some False, Some False]"
  by (simp add: lapTrack_def markStarted_def markCrossed_def newRace_def getCheckpointTs_def
      postTrack_samples js_get_def js_set_def every_Boolean_def Let_def upt_rec)

theorem lap_parameter_from_start_position_witness:
  "activeVehicle (inVehicle postTrack 0 (Vector3 12 0 10) 0 90)
     = Some (0, carRed\<lparr>v_pos := Vector3 12 0 10, v_rot := 0, v_speed := 90\<rparr>)
   \<and> \<not> r_finished (race (inVehicle postTrack 0 (Vector3 12 0 10) 0 90))
   \<and> n_t (getNearestTrackInfo postTrack (Vector3 12 0 10)) = 99 / 500
   \<and> n_t (getNearestTrackInfo postTrack (Vector3 12 0 14.5)) = 1 / 5
   \<and> (\<exists>s1 s2. tickDriving postTrack 0.05 fwdKeys False 0
                  (inVehicle postTrack 0 (Vector3 12 0 10) 0 90) = Inr s1
         \<and> v_pos (vehicles s1 ! 0) = Vector3 12 0 14.5
         \<and> r_lastT (race s1) = 99 / 500
         \<and> r_checkpoints (race s1) = [Some False, Some False, Some False, Some False]
         \<and> tickDriving postTrack 0.05 noKeys False 50 s1 = Inr s2
         \<and> r_lastT (race s2) = 1 / 5
         \<and> r_checkpoints (race s2) = [Some True, Some False, Some False, Some False])"
proof -
  define s where "s = inVehicle postTrack 0 (Vector3 12 0 10) 0 90"
  define v where "v = carRed\<lparr>v_pos := Vector3 12 0 10, v_rot := 0, v_speed := 90\<rparr>"
  have av: "activeVehicle s = Some (0, v)" unfolding s_def v_def by (rule session_0)
  have nf: "\<not> r_finished (race s)" unfolding s_def by (rule session_0)
  have r0: "race s = newRace postTrack 0" unfolding s_def by (simp add: inVehicle_0)
  have p0: "Vector3 (vx (v_pos v)) 0 (vz (v_pos v)) = Vector3 12 0 10" by (simp add: v_def)
  have len: "length (vehicles s) = 7" unfolding s_def by (rule roster_length)
  from lap_parameter_from_start_position [OF av nf, of postTrack "0.05" fwdKeys 0 "0.05" noKeys 50]
  obtain s1 where s1: "tickDriving postTrack 0.05 fwdKeys False 0 s = Inr s1"
    and r1: "race s1 = fst (lapTrack postTrack (99 / 500) 0 (newRace postTrack 0))"
    and step2: "\<not> r_finished (race s1) \<longrightarrow>
          (\<exists>s2. tickDriving postTrack 0.05 noKeys False 50 s1 = Inr s2
             \<and> (let p1 = v_pos (vehicles s1 ! 0);
                     nearest = getNearestTrackInfo postTrack (Vector3 (vx p1) 0 (vz p1))
                 in if num_less (n_distance nearest) (TRACK_WIDTH postTrack * 1.2)
                    then race s2 = fst (lapTrack postTrack (n_t nearest) 50 (race s1))
                       \<and> r_lastT (race s2) = n_t nearest
                    else race s2 = race s1))"
    unfolding p0 r0 by (auto simp add: postTrack_start postTrack_samples Let_def)
  have "s1 = driveStep postTrack 0.05 fwdKeys 0 0 v s"
    using s1 tickDriving_step [OF av nf, of postTrack "0.05" fwdKeys 0] by simp
  then have "vehicles s1 = (vehicles s)[0 := carRed\<lparr>v_pos := Vector3 12 0 (29 / 2), v_rot := 0, v_speed := 90\<rparr>]"
    unfolding s_def v_def by (simp only: post_step)
  then have p1: "v_pos (vehicles s1 ! 0) = Vector3 12 0 (29 / 2)" using len by simp
  have r1': "race s1 = (newRace postTrack 0)\<lparr>r_started := True, r_lastT := 99 / 500\<rparr>"
    unfolding r1 by (rule post_race_1)
  have nf1: "\<not> r_finished (race s1)" unfolding r1' by (simp add: newRace_def)
  from step2 nf1 obtain s2 where s2: "tickDriving postTrack 0.05 noKeys False 50 s1 = Inr s2"
    and r2: "race s2 = fst (lapTrack postTrack (1 / 5) 50 (race s1))"
      "r_lastT (race s2) = 1 / 5"
    unfolding p1 by (auto simp add: postTrack_end postTrack_samples Let_def)
  have c2: "r_checkpoints (race s2) = [Some True, Some False, Some False, Some False]"
    unfolding r2(1) r1' by (rule post_race_2)
  have c1: "r_checkpoints (race s1) = [Some False, Some False, Some False, Some False]"
    "r_lastT (race s1) = 99 / 500"
    unfolding r1' by (simp_all add: newRace_def getCheckpointTs_def postTrack_samples upt_rec)
  show ?thesis
    unfolding s_def [symmetric] v_def [symmetric]
    using av nf s1 s2 p1 c1 c2 r2(2) by (simp add: postTrack_start postTrack_end)
qed

section \<open>Speed at the end of a frame\<close>


lemma resolveCollision_bounce:
  "v_speed (fst (resolveCollision r me ox oz r' po)) = v_speed me
   \<or> v_speed (fst (resolveCollision r me ox oz r' po)) = v_speed me * (- 0.6)"
  by (simp add: resolveCollision_def Let_def)

lemma bounce_once:
  "y = x \<or> y = x * (- 0.6) \<Longrightarrow> \<exists>n :: nat. y = x * (- 0.6 :: real) ^ n"
proof (erule disjE)
  assume "y = x"
  then have "y = x * (- 0.6) ^ 0" by simp
  then show ?thesis by blast
next
  assume "y = x * (- 0.6)"
  then have "y = x * (- 0.6) ^ 1" by simp
  then show ?thesis by blast
qed

lemma bounce_none: "\<exists>n :: nat. x = x * (- 0.6 :: real) ^ n"
  by (rule exI [of _ 0]) simp

lemma bounce_more:
  "y = x * (- 0.6 :: real) ^ n \<Longrightarrow> z = y * (- 0.6) ^ m \<Longrightarrow> \<exists>l :: nat. z = x * (- 0.6) ^ l"
proof -
  assume "y = x * (- 0.6 :: real) ^ n" "z = y * (- 0.6) ^ m"
  then have "z = x * (- 0.6) ^ (n + m)" by (simp add: power_add)
  then show ?thesis by blast
qed

lemma collideLocal_bounce:
  assumes "a < length vs"
  shows "length (collideLocal a i vs) = length vs
     \<and> (\<exists>n :: nat. v_speed (collideLocal a i vs ! a) = v_speed (vs ! a) * (- 0.6) ^ n)"
proof (cases "i = a")
  case True
  then have "collideLocal a i vs = vs" by (simp add: collideLocal_def)
  then show ?thesis using bounce_none [of "v_speed (vs ! a)"] by simp
next
  case False
  let ?res = "resolveCollision (collisionRadius (v_type (vs ! a))) (vs ! a)
                (vx (v_pos (vs ! i))) (vz (v_pos (vs ! i)))
                (collisionRadius (v_type (vs ! i))) (Some (v_pos (vs ! i)))"
  have e: "collideLocal a i vs ! a = fst ?res"
    using False assms by (simp add: collideLocal_def Let_def split_beta)
  have l: "length (collideLocal a i vs) = length vs"
    using False by (simp add: collideLocal_def Let_def split_beta)
  have "\<exists>n :: nat. v_speed (fst ?res) = v_speed (vs ! a) * (- 0.6) ^ n"
    by (rule bounce_once) (rule resolveCollision_bounce)
  then show ?thesis using e l by simp
qed

lemma collideRemote_bounce:
  assumes "a < length vs"
  shows "length (collideRemote a rp vs) = length vs
     \<and> (\<exists>n :: nat. v_speed (collideRemote a rp vs ! a) = v_speed (vs ! a) * (- 0.6) ^ n)"
proof -
  let ?res = "resolveCollision (collisionRadius (v_type (vs ! a))) (vs ! a)
      (vx (rp_position rp)) (vz (rp_position rp)) (remoteRadius (rp_mode rp)) None"
  have e: "collideRemote a rp vs ! a = fst ?res" "length (collideRemote a rp vs) = length vs"
    using assms by (simp_all add: collideRemote_def Let_def)
  have "\<exists>n :: nat. v_speed (fst ?res) = v_speed (vs ! a) * (- 0.6) ^ n"
    by (rule bounce_once) (rule resolveCollision_bounce)
  then show ?thesis using e by simp
qed

lemma fold_collideLocal_bounce:
  "a < length vs \<Longrightarrow>
   length (fold (collideLocal a) is vs) = length vs
   \<and> (\<exists>n :: nat. v_speed (fold (collideLocal a) is vs ! a) = v_speed (vs ! a) * (- 0.6) ^ n)"
proof (induction "is" arbitrary: vs)
  case Nil
  show ?case using bounce_none [of "v_speed (vs ! a)"] by simp
next
  case (Cons i "is")
  note s = collideLocal_bounce [OF Cons.prems, of i]
  then have a: "a < length (collideLocal a i vs)" using Cons.prems by simp
  from s obtain n :: nat
    where n: "v_speed (collideLocal a i vs ! a) = v_speed (vs ! a) * (- 0.6) ^ n" by blast
  from Cons.IH [OF a] obtain m :: nat
    where m: "v_speed (fold (collideLocal a) is (collideLocal a i vs) ! a)
                = v_speed (collideLocal a i vs ! a) * (- 0.6) ^ m"
      and l: "length (fold (collideLocal a) is (collideLocal a i vs)) = length (collideLocal a i vs)"
    by blast
  show ?case using bounce_more [OF n m] l s by simp
qed

lemma fold_collideRemote_bounce:
  "a < length vs \<Longrightarrow>
   length (fold (collideRemote a) rps vs) = length vs
   \<and> (\<exists>n :: nat. v_speed (fold (collideRemote a) rps vs ! a) = v_speed (vs ! a) * (- 0.6) ^ n)"
proof (induction rps arbitrary: vs)
  case Nil
  show ?case using bounce_none [of "v_speed (vs ! a)"] by simp
next
  case (Cons rp rps)
  note s = collideRemote_bounce [OF Cons.prems, of rp]
  then have a: "a < length (collideRemote a rp vs)" using Cons.prems by simp
  from s obtain n :: nat
    where n: "v_speed (collideRemote a rp vs ! a) = v_speed (vs ! a) * (- 0.6) ^ n" by blast
  from Cons.IH [OF a] obtain m :: nat
    where m: "v_speed (fold (collideRemote a) rps (collideRemote a rp vs) ! a)
                = v_speed (collideRemote a rp vs ! a) * (- 0.6) ^ m"
      and l: "length (fold (collideRemote a) rps (collideRemote a rp vs))
                = length (collideRemote a rp vs)"
    by blast
  show ?case using bounce_more [OF n m] l s by simp
qed

lemma tickVehicleCollisions_bounce:
  assumes "modeRef s \<noteq> walking" "activeIdx s = Some a" "a < length (vehicles s)"
  shows "\<exists>s' (n :: nat). tickVehicleCollisions rps s = Inr s'
     \<and> v_speed (vehicles s' ! a) = v_speed (vehicles s ! a) * (- 0.6) ^ n
     \<and> modeRef s' = modeRef s"
proof -
  let ?vs1 = "fold (collideLocal a) [0..<length (vehicles s)] (vehicles s)"
  let ?vs2 = "fold (collideRemote a) rps ?vs1"
  from fold_collideLocal_bounce [OF assms(3), of "[0..<length (vehicles s)]"]
  obtain n :: nat where n: "v_speed (?vs1 ! a) = v_speed (vehicles s ! a) * (- 0.6) ^ n"
    and l: "length ?vs1 = length (vehicles s)" by blast
  have "a < length ?vs1" using assms(3) l by simp
  from fold_collideRemote_bounce [OF this, of rps]
  obtain m :: nat where m: "v_speed (?vs2 ! a) = v_speed (?vs1 ! a) * (- 0.6) ^ m" by blast
  from bounce_more [OF n m]
  obtain l :: nat where "v_speed (?vs2 ! a) = v_speed (vehicles s ! a) * (- 0.6) ^ l" by blast
  moreover have "tickVehicleCollisions rps s = Inr (s\<lparr>vehicles := ?vs2\<rparr>)"
    using assms by (simp add: tickVehicleCollisions_def)
  ultimately show ?thesis by auto
qed

lemma fireWeapon_keeps:
  "fireWeapon mode mouse now s = Inr s' \<Longrightarrow>
   vehicles s' = vehicles s \<and> modeRef s' = modeRef s \<and> activeIdx s' = activeIdx s
   \<and> charPos s' = charPos s"
  by (auto simp: fireWeapon_def fireBullet_def activeVehicle_def Let_def
      split: if_splits option.splits)

lemma fireWeapon_idle:
  "\<not> (mode = flying \<and> m_fireDown mouse) \<Longrightarrow> fireWeapon mode mouse now s = Inr s"
  by (auto simp add: fireWeapon_def)

lemma projectileFrame_charPos: "charPos (projectileFrame dt s) = charPos s"
  by (simp add: projectileFrame_def tickTargets_def tickMuzzleFlash_def tickBullets_def
      split_beta)

lemma activeVehicle_released [simp]:
  "activeVehicle (s\<lparr>interactPressed := b\<rparr>) = activeVehicle s"
  by (auto simp add: activeVehicle_def split: option.splits)


lemma simulate_vehicle_bounce:
  assumes step: "modeStep tp dt k (interactPressed s) mouse taken now (s\<lparr>interactPressed := False\<rparr>)
                   = Inr s1"
    and keep: "modeRef s1 \<noteq> walking" "activeIdx s1 = Some i" "i < length (vehicles s1)"
  shows "\<exists>s' (n :: nat). simulate tp dt k mouse taken rps now s = Inr s'
     \<and> v_speed (vehicles s' ! i) = v_speed (vehicles s1 ! i) * (- 0.6) ^ n
     \<and> modeRef s' = modeRef s1"
proof -
  have av: "activeVehicle s1 = Some (i, vehicles s1 ! i)"
    using keep by (simp add: activeVehicle_def)
  from fireWeapon_frame [OF av, of "modeRef s" mouse now]
  obtain s2 where s2: "fireWeapon (modeRef s) mouse now s1 = Inr s2" "vehicles s2 = vehicles s1"
    "modeRef s2 = modeRef s1" "activeIdx s2 = activeIdx s1" by blast
  let ?s3 = "projectileFrame dt s2"
  have k3: "modeRef ?s3 \<noteq> walking" "activeIdx ?s3 = Some i" "i < length (vehicles ?s3)"
    using keep s2 by (simp_all add: projectileFrame_frame)
  from tickVehicleCollisions_bounce [OF k3, of rps]
  obtain s' and n :: nat where s': "tickVehicleCollisions rps ?s3 = Inr s'"
    "v_speed (vehicles s' ! i) = v_speed (vehicles ?s3 ! i) * (- 0.6) ^ n"
    "modeRef s' = modeRef ?s3" by blast
  have "simulate tp dt k mouse taken rps now s = Inr s'"
    using step s2(1) s'(1) by (simp add: simulate_def Let_def bindE_def)
  then show ?thesis using s'(2,3) s2(2,3) by (auto simp add: projectileFrame_frame)
qed

lemma simulate_exit:
  assumes step: "modeStep tp dt k (interactPressed s) mouse taken now (s\<lparr>interactPressed := False\<rparr>)
                   = Inr s1"
    and w: "modeRef s1 = walking"
  shows "(\<forall>s'. simulate tp dt k mouse taken rps now s = Inr s' \<longrightarrow>
            vehicles s' = vehicles s1 \<and> modeRef s' = walking \<and> charPos s' = charPos s1)
     \<and> (\<not> (modeRef s = flying \<and> m_fireDown mouse) \<longrightarrow>
            (\<exists>s'. simulate tp dt k mouse taken rps now s = Inr s'))"
proof (rule conjI; intro allI impI)
  fix s'
  assume r: "simulate tp dt k mouse taken rps now s = Inr s'"
  then obtain s2 where s2: "fireWeapon (modeRef s) mouse now s1 = Inr s2"
    and c: "tickVehicleCollisions rps (projectileFrame dt s2) = Inr s'"
    using step by (auto simp add: simulate_def Let_def bindE_def split: sum.splits)
  note f = fireWeapon_keeps [OF s2]
  have "modeRef (projectileFrame dt s2) = walking" using f w by (simp add: projectileFrame_frame)
  then have "s' = projectileFrame dt s2" using c by (simp add: tickVehicleCollisions_def)
  then show "vehicles s' = vehicles s1 \<and> modeRef s' = walking \<and> charPos s' = charPos s1"
    using f w by (simp add: projectileFrame_frame projectileFrame_charPos)
next
  assume nf: "\<not> (modeRef s = flying \<and> m_fireDown mouse)"
  have s2: "fireWeapon (modeRef s) mouse now s1 = Inr s1" using nf by (rule fireWeapon_idle)
  have "modeRef (projectileFrame dt s1) = walking" using w by (simp add: projectileFrame_frame)
  then have "tickVehicleCollisions rps (projectileFrame dt s1) = Inr (projectileFrame dt s1)"
    by (simp add: tickVehicleCollisions_def)
  then show "\<exists>s'. simulate tp dt k mouse taken rps now s = Inr s'"
    using step s2 by (simp add: simulate_def Let_def bindE_def)
qed

lemma bounce_factor_le: "\<bar>(- 0.6 :: real) ^ n\<bar> \<le> 1"
  by (simp add: power_abs power_le_one)

lemma bounce_factor_pos: "0 < n \<Longrightarrow> \<bar>(- 0.6 :: real) ^ n\<bar> \<le> 0.6"
proof -
  assume "0 < n"
  then obtain m where n: "n = Suc m" by (cases n) simp_all
  have "\<bar>(- 0.6 :: real) ^ m\<bar> \<le> 1" by (rule bounce_factor_le)
  then show ?thesis unfolding n by (simp add: abs_mult)
qed

lemma bounce_interval:
  fixes x B :: real
  assumes "- 0.6 * B \<le> x" "x \<le> B"
  shows "- 0.6 * B \<le> x * (- 0.6) ^ n \<and> x * (- 0.6) ^ n \<le> B"
proof (cases "n = 0")
  case True
  then show ?thesis using assms by simp
next
  case False
  then have f: "\<bar>(- 0.6 :: real) ^ n\<bar> \<le> 0.6" by (intro bounce_factor_pos) simp
  have B: "0 \<le> B" using assms by simp
  have x: "\<bar>x\<bar> \<le> B" using assms B by (simp add: abs_le_iff)
  have "\<bar>x * (- 0.6) ^ n\<bar> \<le> B * 0.6"
    unfolding abs_mult using x f by (intro mult_mono) simp_all
  then have "- (B * 0.6) \<le> x * (- 0.6) ^ n" "x * (- 0.6) ^ n \<le> B * 0.6"
    by (simp_all only: abs_le_iff minus_le_iff)
  then show ?thesis using B by simp
qed

lemma wall_interval:
  fixes c M :: real
  assumes "- 18 \<le> c" "c \<le> M" "65 \<le> M" "a \<le> (1 :: nat)"
  shows "- 0.6 * M \<le> c * (- 0.3) ^ a \<and> c * (- 0.3) ^ a \<le> M"
proof (cases "a = 0")
  case True
  then show ?thesis using assms by simp
next
  case False
  then have "a = 1" using assms(4) by simp
  then show ?thesis using assms by simp
qed


lemma walkGround_xz:
  "(vx (charPos (walkGround tp dt k camYaw s)) = vx (charPos s)
    \<and> vz (charPos (walkGround tp dt k camYaw s)) = vz (charPos s))
   \<or> (let mv = moveVector k camYaw;
           len = sqrt (fst mv * fst mv + snd mv * snd mv);
           base = (if k_shift k then WALK_runSpeed else WALK_speed)
       in vx (charPos (walkGround tp dt k camYaw s))
            = vx (charPos s) - (if len > 0.001 then fst mv / len else 0) * base * dt
        \<and> vz (charPos (walkGround tp dt k camYaw s))
            = vz (charPos s) - (if len > 0.001 then snd mv / len else 0) * base * dt)"
  by (simp add: walkGround_def Let_def split_beta)

lemma walkMove_xz:
  "(let mv = moveVector k (charRot s + orbitYawRef s);
        len = sqrt (fst mv * fst mv + snd mv * snd mv);
        base = (if k_shift k then WALK_runSpeed else WALK_speed)
    in vx (charPos (walkMove dt k s))
         = vx (charPos s) + (if len > 0.001 then fst mv / len else 0) * base * dt
     \<and> vz (charPos (walkMove dt k s))
         = vz (charPos s) + (if len > 0.001 then snd mv / len else 0) * base * dt)"
  by (simp add: walkMove_def Let_def split_beta)

lemma unit_direction:
  fixes mx mz :: real
  assumes "sqrt (mx * mx + mz * mz) > 0.001"
  shows "(mx / sqrt (mx * mx + mz * mz))\<^sup>2 + (mz / sqrt (mx * mx + mz * mz))\<^sup>2 = 1"
proof -
  define len where "len = sqrt (mx * mx + mz * mz)"
  have "(0 :: real) < 0.001" by simp
  then have p: "0 < len" unfolding len_def using assms by (rule less_trans)
  have "0 \<le> mx * mx + mz * mz" by simp
  then have sq: "len\<^sup>2 = mx * mx + mz * mz" unfolding len_def by (rule real_sqrt_pow2)
  have "(mx / len)\<^sup>2 + (mz / len)\<^sup>2 = (mx * mx + mz * mz) / len\<^sup>2"
    by (simp add: power2_eq_square add_divide_distrib)
  also have "\<dots> = 1" unfolding sq [symmetric] using p by simp
  finally show ?thesis unfolding len_def .
qed

lemma tickWalking_charPos:
  "charPos (tickWalking tp dt k justE taken now s)
     = charPos (walkGround tp dt k (charRot s + orbitYawRef s) (walkMove dt k s))"
  by (simp add: tickWalking_def enterVehicle_def Let_def split: option.splits)

lemma tickWalking_displacement:
  "(vx (charPos (tickWalking tp dt k justE taken now s)) - vx (charPos s))\<^sup>2
     + (vz (charPos (tickWalking tp dt k justE taken now s)) - vz (charPos s))\<^sup>2 = 0
   \<or> (vx (charPos (tickWalking tp dt k justE taken now s)) - vx (charPos s))\<^sup>2
     + (vz (charPos (tickWalking tp dt k justE taken now s)) - vz (charPos s))\<^sup>2
       = ((if k_shift k then WALK_runSpeed else WALK_speed) * dt)\<^sup>2"
proof -
  define mv where "mv = moveVector k (charRot s + orbitYawRef s)"
  define len where "len = sqrt (fst mv * fst mv + snd mv * snd mv)"
  define base :: real where "base = (if k_shift k then 16 else 8)"
  define ux where "ux = (if len > 0.001 then fst mv / len else 0)"
  define uz where "uz = (if len > 0.001 then snd mv / len else 0)"
  define s1 where "s1 = walkMove dt k s"
  define s2 where "s2 = walkGround tp dt k (charRot s + orbitYawRef s) s1"
  have m: "vx (charPos s1) = vx (charPos s) + ux * base * dt"
    "vz (charPos s1) = vz (charPos s) + uz * base * dt"
    using walkMove_xz [of k s dt]
    unfolding s1_def ux_def uz_def len_def mv_def base_def Let_def by simp_all
  have g: "(vx (charPos s2) = vx (charPos s1) \<and> vz (charPos s2) = vz (charPos s1))
     \<or> (vx (charPos s2) = vx (charPos s1) - ux * base * dt
        \<and> vz (charPos s2) = vz (charPos s1) - uz * base * dt)"
    using walkGround_xz [of tp dt k "charRot s + orbitYawRef s" s1]
    unfolding s2_def ux_def uz_def len_def mv_def base_def Let_def by simp
  have u: "ux\<^sup>2 + uz\<^sup>2 = 0 \<or> ux\<^sup>2 + uz\<^sup>2 = 1"
  proof (cases "len > 0.001")
    case True
    then have "ux\<^sup>2 + uz\<^sup>2 = 1"
      unfolding ux_def uz_def len_def using unit_direction [of "fst mv" "snd mv"] by simp
    then show ?thesis by simp
  next
    case False
    then show ?thesis unfolding ux_def uz_def by simp
  qed
  have e: "(ux * base * dt)\<^sup>2 + (uz * base * dt)\<^sup>2 = (ux\<^sup>2 + uz\<^sup>2) * (base * dt)\<^sup>2"
    by (simp add: power2_eq_square algebra_simps)
  have d: "(vx (charPos s2) - vx (charPos s))\<^sup>2 + (vz (charPos s2) - vz (charPos s))\<^sup>2 = 0
     \<or> (vx (charPos s2) - vx (charPos s))\<^sup>2 + (vz (charPos s2) - vz (charPos s))\<^sup>2
          = (base * dt)\<^sup>2"
  proof (rule disjE [OF g])
    assume "vx (charPos s2) = vx (charPos s1) \<and> vz (charPos s2) = vz (charPos s1)"
    then have "(vx (charPos s2) - vx (charPos s))\<^sup>2 + (vz (charPos s2) - vz (charPos s))\<^sup>2
        = (ux\<^sup>2 + uz\<^sup>2) * (base * dt)\<^sup>2"
      unfolding m e [symmetric] by simp
    then show ?thesis using u by auto
  next
    assume "vx (charPos s2) = vx (charPos s1) - ux * base * dt
        \<and> vz (charPos s2) = vz (charPos s1) - uz * base * dt"
    then have "(vx (charPos s2) - vx (charPos s))\<^sup>2 + (vz (charPos s2) - vz (charPos s))\<^sup>2 = 0"
      unfolding m by simp
    then show ?thesis by simp
  qed
  have "charPos (tickWalking tp dt k justE taken now s) = charPos s2"
    unfolding s2_def s1_def by (rule tickWalking_charPos)
  then show ?thesis using d unfolding base_def by simp
qed

lemma findIndex_less: "findIndex P xs = Some i \<Longrightarrow> i < length xs"
  by (induction xs arbitrary: i) (auto split: if_splits)

lemma enterVehicle_valid:
  "modeRef s = walking \<Longrightarrow>
   modeRef (enterVehicle tp now s) = walking
   \<or> (\<exists>i. activeIdx (enterVehicle tp now s) = Some i
          \<and> i < length (vehicles (enterVehicle tp now s)))"
  by (auto simp add: enterVehicle_def Let_def findIndex_less split: option.splits)

lemma tickWalking_valid:
  "modeRef s = walking \<Longrightarrow>
   modeRef (tickWalking tp dt k justE taken now s) = walking
   \<or> (\<exists>i. activeIdx (tickWalking tp dt k justE taken now s) = Some i
          \<and> i < length (vehicles (tickWalking tp dt k justE taken now s)))"
proof -
  assume w: "modeRef s = walking"
  define s3 where "s3 = (walkGround tp dt k (charRot s + orbitYawRef s) (walkMove dt k s))
     \<lparr>nearbyRef := nearby_scan taken
        (charPos (walkGround tp dt k (charRot s + orbitYawRef s) (walkMove dt k s)))
        (vehicles (walkGround tp dt k (charRot s + orbitYawRef s) (walkMove dt k s)))
        INTERACT_RADIUS_SQ None\<rparr>"
  have m: "modeRef s3 = walking"
    unfolding s3_def using w by (simp add: walkGround_def walkMove_def Let_def split_beta)
  have t: "tickWalking tp dt k justE taken now s = (if justE then enterVehicle tp now s3 else s3)"
    unfolding s3_def by (simp add: tickWalking_def Let_def)
  show ?thesis
    unfolding t using m enterVehicle_valid [OF m, of tp now] by auto
qed

lemma tickVehicleCollisions_charPos:
  "tickVehicleCollisions rps s = Inr s' \<Longrightarrow> charPos s' = charPos s"
  by (auto simp add: tickVehicleCollisions_def split: if_splits option.splits)

lemma simulate_walking:
  assumes "modeRef s = walking"
  shows "\<exists>s'. simulate tp dt k mouse taken rps now s = Inr s'
     \<and> charPos s' = charPos (tickWalking tp dt k (interactPressed s) taken now
                               (s\<lparr>interactPressed := False\<rparr>))"
proof -
  let ?s0 = "s\<lparr>interactPressed := False\<rparr>"
  let ?s1 = "tickWalking tp dt k (interactPressed s) taken now ?s0"
  let ?s3 = "projectileFrame dt ?s1"
  have w0: "modeRef ?s0 = walking" using assms by simp
  have ms: "modeStep tp dt k (interactPressed s) mouse taken now ?s0 = Inr ?s1"
    using assms by (simp add: modeStep_def)
  have fw: "fireWeapon (modeRef s) mouse now ?s1 = Inr ?s1"
    using assms by (intro fireWeapon_idle) simp
  have "\<exists>s'. tickVehicleCollisions rps ?s3 = Inr s'"
    using tickWalking_valid [OF w0, of tp dt k "interactPressed s" taken now]
    by (auto simp add: tickVehicleCollisions_def projectileFrame_frame)
  then obtain s' where c: "tickVehicleCollisions rps ?s3 = Inr s'" by blast
  have "simulate tp dt k mouse taken rps now s = Inr s'"
    using ms fw c by (simp add: simulate_def Let_def bindE_def)
  moreover have "charPos s' = charPos ?s1"
    using tickVehicleCollisions_charPos [OF c] by (simp add: projectileFrame_charPos)
  ultimately show ?thesis by blast
qed


lemma collideLocal_every:
  assumes "a < length vs" "j < length vs"
  shows "\<exists>n :: nat. v_speed (collideLocal a i vs ! j) = v_speed (vs ! j) * (- 0.6) ^ n"
proof (cases "j = a")
  case True
  then show ?thesis using collideLocal_bounce [OF assms(1), of i] by simp
next
  case False
  have "v_speed (collideLocal a i vs ! j) = v_speed (vs ! j)"
    using False assms(2)
    by (cases "i = j") (simp_all add: collideLocal_def Let_def split_beta)
  then show ?thesis using bounce_none [of "v_speed (vs ! j)"] by simp
qed

lemma collideRemote_every:
  assumes "a < length vs" "j < length vs"
  shows "\<exists>n :: nat. v_speed (collideRemote a rp vs ! j) = v_speed (vs ! j) * (- 0.6) ^ n"
proof (cases "j = a")
  case True
  then show ?thesis using collideRemote_bounce [OF assms(1), of rp] by simp
next
  case False
  have "v_speed (collideRemote a rp vs ! j) = v_speed (vs ! j)"
    using False by (simp add: collideRemote_def Let_def)
  then show ?thesis using bounce_none [of "v_speed (vs ! j)"] by simp
qed

lemma fold_collideLocal_every:
  "a < length vs \<Longrightarrow> j < length vs \<Longrightarrow>
   \<exists>n :: nat. v_speed (fold (collideLocal a) is vs ! j) = v_speed (vs ! j) * (- 0.6) ^ n"
proof (induction "is" arbitrary: vs)
  case Nil
  show ?case using bounce_none [of "v_speed (vs ! j)"] by simp
next
  case (Cons i "is")
  have l: "length (collideLocal a i vs) = length vs"
    using collideLocal_bounce [OF Cons.prems(1), of i] by simp
  from collideLocal_every [OF Cons.prems, of i] obtain n :: nat
    where n: "v_speed (collideLocal a i vs ! j) = v_speed (vs ! j) * (- 0.6) ^ n" by blast
  from Cons.IH [of "collideLocal a i vs"] l Cons.prems obtain m :: nat
    where m: "v_speed (fold (collideLocal a) is (collideLocal a i vs) ! j)
                = v_speed (collideLocal a i vs ! j) * (- 0.6) ^ m" by auto
  show ?case using bounce_more [OF n m] by simp
qed

lemma fold_collideRemote_every:
  "a < length vs \<Longrightarrow> j < length vs \<Longrightarrow>
   \<exists>n :: nat. v_speed (fold (collideRemote a) rps vs ! j) = v_speed (vs ! j) * (- 0.6) ^ n"
proof (induction rps arbitrary: vs)
  case Nil
  show ?case using bounce_none [of "v_speed (vs ! j)"] by simp
next
  case (Cons rp rps)
  have l: "length (collideRemote a rp vs) = length vs"
    using collideRemote_bounce [OF Cons.prems(1), of rp] by simp
  from collideRemote_every [OF Cons.prems, of rp] obtain n :: nat
    where n: "v_speed (collideRemote a rp vs ! j) = v_speed (vs ! j) * (- 0.6) ^ n" by blast
  from Cons.IH [of "collideRemote a rp vs"] l Cons.prems obtain m :: nat
    where m: "v_speed (fold (collideRemote a) rps (collideRemote a rp vs) ! j)
                = v_speed (collideRemote a rp vs ! j) * (- 0.6) ^ m" by auto
  show ?case using bounce_more [OF n m] by simp
qed

lemma tickVehicleCollisions_every:
  assumes "tickVehicleCollisions rps s = Inr s'" "j < length (vehicles s)"
  shows "\<exists>n :: nat. v_speed (vehicles s' ! j) = v_speed (vehicles s ! j) * (- 0.6) ^ n"
proof (cases "modeRef s = walking \<or> activeIdx s = None")
  case True
  then have "s' = s"
    using assms(1) by (auto simp add: tickVehicleCollisions_def split: if_splits)
  then show ?thesis using bounce_none [of "v_speed (vehicles s ! j)"] by simp
next
  case False
  then obtain a where a: "activeIdx s = Some a" by auto
  have al: "a < length (vehicles s)"
    using assms(1) False a by (auto simp add: tickVehicleCollisions_def split: if_splits)
  let ?vs1 = "fold (collideLocal a) [0..<length (vehicles s)] (vehicles s)"
  let ?vs2 = "fold (collideRemote a) rps ?vs1"
  have e: "vehicles s' = ?vs2"
    using assms(1) False a al by (auto simp add: tickVehicleCollisions_def)
  have l: "length ?vs1 = length (vehicles s)"
    using fold_collideLocal_bounce [OF al, of "[0..<length (vehicles s)]"] by simp
  from fold_collideLocal_every [OF al assms(2), of "[0..<length (vehicles s)]"]
  obtain n :: nat where n: "v_speed (?vs1 ! j) = v_speed (vehicles s ! j) * (- 0.6) ^ n" by blast
  from fold_collideRemote_every [of a ?vs1 j rps] al assms(2) l
  obtain m :: nat where m: "v_speed (?vs2 ! j) = v_speed (?vs1 ! j) * (- 0.6) ^ m" by auto
  show ?thesis unfolding e by (rule bounce_more [OF n m])
qed

lemma walkMove_vehicles: "vehicles (walkMove dt k s) = vehicles s"
  by (simp add: walkMove_def Let_def split_beta)

lemma walkGround_vehicles: "vehicles (walkGround tp dt k camYaw s) = vehicles s"
  by (simp add: walkGround_def Let_def split_beta)

lemma enterVehicle_vehicles: "vehicles (enterVehicle tp now s) = vehicles s"
  by (simp add: enterVehicle_def Let_def split: option.splits)

lemma tickWalking_vehicles: "vehicles (tickWalking tp dt k justE taken now s) = vehicles s"
  by (simp add: tickWalking_def Let_def enterVehicle_vehicles walkGround_vehicles
      walkMove_vehicles)

lemma simulate_walking_vehicles:
  assumes "modeRef s = walking" "simulate tp dt k mouse taken rps now s = Inr s'"
    "j < length (vehicles s)"
  shows "\<exists>n :: nat. v_speed (vehicles s' ! j) = v_speed (vehicles s ! j) * (- 0.6) ^ n"
proof -
  let ?s0 = "s\<lparr>interactPressed := False\<rparr>"
  let ?s1 = "tickWalking tp dt k (interactPressed s) taken now ?s0"
  let ?s3 = "projectileFrame dt ?s1"
  have ms: "modeStep tp dt k (interactPressed s) mouse taken now ?s0 = Inr ?s1"
    using assms(1) by (simp add: modeStep_def)
  have fw: "fireWeapon (modeRef s) mouse now ?s1 = Inr ?s1"
    using assms(1) by (intro fireWeapon_idle) simp
  have c: "tickVehicleCollisions rps ?s3 = Inr s'"
    using assms(2) ms fw by (simp add: simulate_def Let_def bindE_def)
  have v: "vehicles ?s3 = vehicles s"
    by (simp add: projectileFrame_frame tickWalking_vehicles)
  show ?thesis
    using tickVehicleCollisions_every [OF c, of j] assms(3) unfolding v by simp
qed

text \<open>
  Claim C3, as amended.  For every input and frame delta, in a frame that begins with an
  active vehicle:

  \<^item> In driving mode, without the interact key and with the session not finished, the
    driving step clamps the speed to \<open>c\<close> in \<open>[-18, maxSpeed]\<close>, where \<open>maxSpeed\<close> is 90 on
    the road or 65 off it, times 1.5 while boosting.  The step ends with \<open>c\<close>, or with
    \<open>-0.3 c\<close> when it ran into a wall, and the collision resolver, which runs after the
    step, multiplies the speed by \<open>-0.6\<close> for each bounce.  The speed at the end of the
    frame is \<open>c (-0.3)\<^sup>a (-0.6)\<^sup>n\<close> with \<open>a \<le> 1\<close>, so it lies within
    \<open>[-0.6 maxSpeed, maxSpeed]\<close>, and it is \<open>c\<close> itself, within \<open>[-18, maxSpeed]\<close>, when
    nothing bounced.
  \<^item> In a finished session without the interact key nothing is clamped: the speed at the
    end of the frame is the speed at its start times \<open>(-0.6)\<^sup>n\<close>, and stays in any
    interval \<open>[-0.6 B, B]\<close> that held it.
  \<^item> With the interact key in driving mode the frame leaves the vehicle, at speed 0.
  \<^item> In flying mode, unless the frame lands (interact key at most one unit above the
    ground level), the flying step clamps the speed to \<open>c\<close> in \<open>[0, 120]\<close> and the frame
    ends with \<open>c (-0.6)\<^sup>n\<close>, within \<open>[-72, 120]\<close>.  A landing frame that returns leaves
    the vehicle at speed 0, and it returns when the fire button is not held.
  \<^item> In walking mode the frame moves the character in the plane by 0 or by the walking
    speed times \<open>dt\<close>, the walking speed being 8, or 16 with the shift key; the speed of
    every vehicle at the end of the frame is its speed at the start times \<open>(-0.6)\<^sup>n\<close>;
    and the walking speed handed to the HUD is 0, 8 or 16.
\<close>

theorem speed_bounds_with_bounce:
  assumes "activeVehicle s = Some (i, v)"
  shows "(modeRef s = driving \<and> \<not> interactPressed s \<and> \<not> r_finished (race s) \<longrightarrow>
           (\<exists>c M s1 s' (a :: nat) (n :: nat).
              M = (if isOnTrack tp (Vector3 (vx (v_pos v)) 0 (vz (v_pos v)))
                   then DRIVE_maxSpeed else DRIVE_grassMaxSpeed)
                  * (if k_shift k \<and> boostMeter s > 0 \<and> k_forward k then 1.5 else 1)
              \<and> c = driveThrottle dt k (k_shift k \<and> boostMeter s > 0 \<and> k_forward k)
                      (isOnTrack tp (Vector3 (vx (v_pos v)) 0 (vz (v_pos v)))) (v_speed v)
              \<and> - DRIVE_reverseMax \<le> c \<and> c \<le> M
              \<and> tickDriving tp dt k False now s = Inr s1
              \<and> a \<le> 1 \<and> v_speed (vehicles s1 ! i) = c * (- 0.3) ^ a
              \<and> simulate tp dt k mouse taken rps now s = Inr s'
              \<and> v_speed (vehicles s' ! i) = c * (- 0.3) ^ a * (- COLLISION_BOUNCE) ^ n
              \<and> - COLLISION_BOUNCE * M \<le> v_speed (vehicles s' ! i)
              \<and> v_speed (vehicles s' ! i) \<le> M))
     \<and> (modeRef s = driving \<and> \<not> interactPressed s \<and> r_finished (race s) \<longrightarrow>
           (\<exists>s' (n :: nat).
              simulate tp dt k mouse taken rps now s = Inr s'
              \<and> v_speed (vehicles s' ! i) = v_speed v * (- COLLISION_BOUNCE) ^ n
              \<and> (\<forall>B. - COLLISION_BOUNCE * B \<le> v_speed v \<and> v_speed v \<le> B \<longrightarrow>
                     - COLLISION_BOUNCE * B \<le> v_speed (vehicles s' ! i)
                     \<and> v_speed (vehicles s' ! i) \<le> B)))
     \<and> (modeRef s = driving \<and> interactPressed s \<longrightarrow>
           (\<exists>s'. simulate tp dt k mouse taken rps now s = Inr s'
              \<and> modeRef s' = walking \<and> v_speed (vehicles s' ! i) = 0))
     \<and> (modeRef s = flying \<and> \<not> (interactPressed s \<and> vy (v_pos v) \<le> FLY_groundY + 1) \<longrightarrow>
           (\<exists>c s' (n :: nat).
              c = flyThrottle dt k (v_speed v)
              \<and> 0 \<le> c \<and> c \<le> FLY_maxSpeed
              \<and> simulate tp dt k mouse taken rps now s = Inr s'
              \<and> v_speed (vehicles s' ! i) = c * (- COLLISION_BOUNCE) ^ n
              \<and> - COLLISION_BOUNCE * FLY_maxSpeed \<le> v_speed (vehicles s' ! i)
              \<and> v_speed (vehicles s' ! i) \<le> FLY_maxSpeed))
     \<and> (modeRef s = flying \<and> interactPressed s \<and> vy (v_pos v) \<le> FLY_groundY + 1 \<longrightarrow>
           (\<forall>s'. simulate tp dt k mouse taken rps now s = Inr s' \<longrightarrow>
                 modeRef s' = walking \<and> v_speed (vehicles s' ! i) = 0)
           \<and> (\<not> m_fireDown mouse \<longrightarrow>
                 (\<exists>s'. simulate tp dt k mouse taken rps now s = Inr s')))
     \<and> (\<forall>s0. modeRef s0 = walking \<longrightarrow>
           (\<exists>s'. simulate tp dt k mouse taken rps now s0 = Inr s'
              \<and> ((vx (charPos s') - vx (charPos s0))\<^sup>2
                    + (vz (charPos s') - vz (charPos s0))\<^sup>2 = 0
                 \<or> (vx (charPos s') - vx (charPos s0))\<^sup>2
                    + (vz (charPos s') - vz (charPos s0))\<^sup>2
                      = ((if k_shift k then WALK_runSpeed else WALK_speed) * dt)\<^sup>2)
              \<and> (\<forall>j < length (vehicles s0). \<exists>n :: nat.
                     v_speed (vehicles s' ! j)
                       = v_speed (vehicles s0 ! j) * (- COLLISION_BOUNCE) ^ n)))
     \<and> (\<forall>s0 st. modeRef s0 = walking \<and> syncToReact k now s0 = Inr st \<longrightarrow>
           ps_speed st = 0 \<or> ps_speed st = WALK_speed \<or> ps_speed st = WALK_runSpeed)"
  (is "?drive \<and> ?finished \<and> ?exit \<and> ?fly \<and> ?land \<and> ?walk \<and> ?hud")
proof (intro conjI)
  note ix = activeVehicle_index [OF assms]
  let ?s0 = "s\<lparr>interactPressed := False\<rparr>"
  have av0: "activeVehicle ?s0 = Some (i, v)" using assms by simp
  have vi: "vehicles s ! i = v" using ix by simp
  show ?drive
  proof
    assume d: "modeRef s = driving \<and> \<not> interactPressed s \<and> \<not> r_finished (race s)"
    let ?b = "k_shift k \<and> boostMeter s > 0 \<and> k_forward k"
    let ?on = "isOnTrack tp (Vector3 (vx (v_pos v)) 0 (vz (v_pos v)))"
    let ?c = "driveThrottle dt k ?b ?on (v_speed v)"
    let ?M = "driveMaxSpd ?on ?b"
    let ?s1 = "driveStep tp dt k now i v s"
    have s0: "?s0 = s" using d by simp
    have t: "tickDriving tp dt k False now s = Inr ?s1"
      using assms d by (simp add: tickDriving_step)
    have lo: "- 18 \<le> ?c" and hi: "?c \<le> ?M" by (rule driveThrottle_bounds)+
    have M65: "65 \<le> ?M" by (rule driveMaxSpd_ge)
    have "v_speed (vehicles ?s1 ! i) = ?c \<or> v_speed (vehicles ?s1 ! i) = ?c * (- 0.3)"
    proof (rule driveStep_speed)
      show "i < length (vehicles s)" using ix by simp
    qed
    then have "v_speed (vehicles ?s1 ! i) = ?c * (- 0.3) ^ (0 :: nat)
       \<or> v_speed (vehicles ?s1 ! i) = ?c * (- 0.3) ^ (1 :: nat)" by simp
    then obtain a :: nat where a: "a \<le> 1" "v_speed (vehicles ?s1 ! i) = ?c * (- 0.3) ^ a"
      by (metis le_refl zero_le)
    have ms: "modeStep tp dt k (interactPressed s) mouse taken now ?s0 = Inr ?s1"
      unfolding s0 using d t by (simp add: modeStep_def)
    have keep: "modeRef ?s1 \<noteq> walking" "activeIdx ?s1 = Some i" "i < length (vehicles ?s1)"
      using d ix by (simp_all add: driveStep_frame)
    from simulate_vehicle_bounce [OF ms keep, of rps]
    obtain s' and n :: nat where s': "simulate tp dt k mouse taken rps now s = Inr s'"
      "v_speed (vehicles s' ! i) = v_speed (vehicles ?s1 ! i) * (- 0.6) ^ n" by blast
    have sp: "v_speed (vehicles s' ! i) = ?c * (- 0.3) ^ a * (- 0.6) ^ n"
      using s'(2) a(2) by simp
    note w = wall_interval [OF lo hi M65 a(1)]
    have fin: "- 0.6 * ?M \<le> v_speed (vehicles s' ! i) \<and> v_speed (vehicles s' ! i) \<le> ?M"
      unfolding sp using w by (intro bounce_interval) simp_all
    have M: "?M = (if ?on then DRIVE_maxSpeed else DRIVE_grassMaxSpeed) * (if ?b then 1.5 else 1)"
      by (simp add: driveMaxSpd_def)
    show "\<exists>c M s1 s' (a :: nat) (n :: nat).
              M = (if ?on then DRIVE_maxSpeed else DRIVE_grassMaxSpeed) * (if ?b then 1.5 else 1)
              \<and> c = ?c
              \<and> - DRIVE_reverseMax \<le> c \<and> c \<le> M
              \<and> tickDriving tp dt k False now s = Inr s1
              \<and> a \<le> 1 \<and> v_speed (vehicles s1 ! i) = c * (- 0.3) ^ a
              \<and> simulate tp dt k mouse taken rps now s = Inr s'
              \<and> v_speed (vehicles s' ! i) = c * (- 0.3) ^ a * (- COLLISION_BOUNCE) ^ n
              \<and> - COLLISION_BOUNCE * M \<le> v_speed (vehicles s' ! i)
              \<and> v_speed (vehicles s' ! i) \<le> M"
      apply (rule exI [of _ ?c])
      apply (rule exI [of _ ?M])
      apply (rule exI [of _ ?s1])
      apply (rule exI [of _ s'])
      apply (rule exI [of _ a])
      apply (rule exI [of _ n])
      using M lo hi t a s'(1) sp fin by simp
  qed
  show ?finished
  proof
    assume d: "modeRef s = driving \<and> \<not> interactPressed s \<and> r_finished (race s)"
    have s0: "?s0 = s" using d by simp
    have ms: "modeStep tp dt k (interactPressed s) mouse taken now ?s0 = Inr s"
      unfolding s0 using d by (simp add: modeStep_def tickDriving_def)
    have keep: "modeRef s \<noteq> walking" "activeIdx s = Some i" "i < length (vehicles s)"
      using d ix by simp_all
    from simulate_vehicle_bounce [OF ms keep, of rps]
    obtain s' and n :: nat where s': "simulate tp dt k mouse taken rps now s = Inr s'"
      "v_speed (vehicles s' ! i) = v_speed v * (- 0.6) ^ n" unfolding vi by blast
    have "\<forall>B. - 0.6 * B \<le> v_speed v \<and> v_speed v \<le> B \<longrightarrow>
             - 0.6 * B \<le> v_speed (vehicles s' ! i) \<and> v_speed (vehicles s' ! i) \<le> B"
      unfolding s'(2) using bounce_interval by blast
    then show "\<exists>s' (n :: nat).
              simulate tp dt k mouse taken rps now s = Inr s'
              \<and> v_speed (vehicles s' ! i) = v_speed v * (- COLLISION_BOUNCE) ^ n
              \<and> (\<forall>B. - COLLISION_BOUNCE * B \<le> v_speed v \<and> v_speed v \<le> B \<longrightarrow>
                     - COLLISION_BOUNCE * B \<le> v_speed (vehicles s' ! i)
                     \<and> v_speed (vehicles s' ! i) \<le> B)"
      using s' by blast
  qed
  show ?exit
  proof
    assume d: "modeRef s = driving \<and> interactPressed s"
    from exitVehicle_result [OF av0, of tp]
    obtain s1 where s1: "exitVehicle tp ?s0 = Inr s1" "modeRef s1 = walking"
      "v_speed (vehicles s1 ! i) = 0" by blast
    have ms: "modeStep tp dt k (interactPressed s) mouse taken now ?s0 = Inr s1"
      using d s1(1) by (simp add: modeStep_def tickDriving_def)
    note e = simulate_exit [OF ms s1(2), of rps]
    have "\<not> (modeRef s = flying \<and> m_fireDown mouse)" using d by simp
    with e obtain s' where s': "simulate tp dt k mouse taken rps now s = Inr s'" by blast
    with e have "vehicles s' = vehicles s1 \<and> modeRef s' = walking" by blast
    then show "\<exists>s'. simulate tp dt k mouse taken rps now s = Inr s'
              \<and> modeRef s' = walking \<and> v_speed (vehicles s' ! i) = 0"
      using s' s1(3) by auto
  qed
  show ?fly
  proof
    assume f: "modeRef s = flying \<and> \<not> (interactPressed s \<and> vy (v_pos v) \<le> FLY_groundY + 1)"
    let ?s1 = "flyStep dt k mouse i v ?s0"
    have t: "tickFlying tp dt k (interactPressed s) mouse ?s0 = Inr ?s1"
      using av0 f by (auto simp add: tickFlying_def)
    have i0: "i < length (vehicles ?s0)" using ix by simp
    have sp: "v_speed (vehicles ?s1 ! i) = flyThrottle dt k (v_speed v)"
      using i0 by (simp add: flyStep_frame)
    have b: "0 \<le> flyThrottle dt k (v_speed v)" "flyThrottle dt k (v_speed v) \<le> 120"
      by (rule flyThrottle_bounds)+
    have ms: "modeStep tp dt k (interactPressed s) mouse taken now ?s0 = Inr ?s1"
      using f t by (simp add: modeStep_def)
    have keep: "modeRef ?s1 \<noteq> walking" "activeIdx ?s1 = Some i" "i < length (vehicles ?s1)"
      using f ix by (simp_all add: flyStep_frame)
    from simulate_vehicle_bounce [OF ms keep, of rps]
    obtain s' and n :: nat where s': "simulate tp dt k mouse taken rps now s = Inr s'"
      "v_speed (vehicles s' ! i) = flyThrottle dt k (v_speed v) * (- 0.6) ^ n"
      unfolding sp by blast
    have "- 0.6 * 120 \<le> flyThrottle dt k (v_speed v)" using b by simp
    then have fin: "- 0.6 * 120 \<le> v_speed (vehicles s' ! i) \<and> v_speed (vehicles s' ! i) \<le> 120"
      unfolding s'(2) using b(2) by (rule bounce_interval)
    show "\<exists>c s' (n :: nat).
              c = flyThrottle dt k (v_speed v)
              \<and> 0 \<le> c \<and> c \<le> FLY_maxSpeed
              \<and> simulate tp dt k mouse taken rps now s = Inr s'
              \<and> v_speed (vehicles s' ! i) = c * (- COLLISION_BOUNCE) ^ n
              \<and> - COLLISION_BOUNCE * FLY_maxSpeed \<le> v_speed (vehicles s' ! i)
              \<and> v_speed (vehicles s' ! i) \<le> FLY_maxSpeed"
      using b s' fin by blast
  qed
  show ?land
  proof
    assume f: "modeRef s = flying \<and> interactPressed s \<and> vy (v_pos v) \<le> FLY_groundY + 1"
    let ?w = "(setY FLY_groundY v)\<lparr>v_speed := 0, v_pitch := 0\<rparr>"
    let ?sx = "?s0\<lparr>vehicles := (vehicles ?s0)[i := ?w], flyYawVel := 0, flyPitchVel := 0\<rparr>"
    have avx: "activeVehicle ?sx = Some (i, ?w)" using ix by (simp add: activeVehicle_def)
    from exitVehicle_result [OF avx, of tp]
    obtain s1 where s1: "exitVehicle tp ?sx = Inr s1" "modeRef s1 = walking"
      "v_speed (vehicles s1 ! i) = 0" by blast
    have t: "tickFlying tp dt k (interactPressed s) mouse ?s0 = Inr s1"
      using av0 f s1(1) by (simp add: tickFlying_def)
    have ms: "modeStep tp dt k (interactPressed s) mouse taken now ?s0 = Inr s1"
      using f t by (simp add: modeStep_def)
    note e = simulate_exit [OF ms s1(2), of rps]
    show "(\<forall>s'. simulate tp dt k mouse taken rps now s = Inr s' \<longrightarrow>
                 modeRef s' = walking \<and> v_speed (vehicles s' ! i) = 0)
           \<and> (\<not> m_fireDown mouse \<longrightarrow>
                 (\<exists>s'. simulate tp dt k mouse taken rps now s = Inr s'))"
      using e s1(3) by auto
  qed
  show ?walk
  proof (intro allI impI)
    fix s0 :: Controller
    assume w: "modeRef s0 = walking"
    from simulate_walking [OF w, of tp dt k mouse taken rps now]
    obtain s' where s': "simulate tp dt k mouse taken rps now s0 = Inr s'"
      "charPos s' = charPos (tickWalking tp dt k (interactPressed s0) taken now
                               (s0\<lparr>interactPressed := False\<rparr>))" by blast
    have d: "(vx (charPos s') - vx (charPos s0))\<^sup>2
                    + (vz (charPos s') - vz (charPos s0))\<^sup>2 = 0
                 \<or> (vx (charPos s') - vx (charPos s0))\<^sup>2
                    + (vz (charPos s') - vz (charPos s0))\<^sup>2
                      = ((if k_shift k then WALK_runSpeed else WALK_speed) * dt)\<^sup>2"
      using tickWalking_displacement [of tp dt k "interactPressed s0" taken now
          "s0\<lparr>interactPressed := False\<rparr>"]
      unfolding s'(2) [symmetric] by simp
    have e: "\<forall>j < length (vehicles s0). \<exists>n :: nat.
               v_speed (vehicles s' ! j) = v_speed (vehicles s0 ! j) * (- COLLISION_BOUNCE) ^ n"
      using simulate_walking_vehicles [OF w s'(1)] by blast
    show "\<exists>s'. simulate tp dt k mouse taken rps now s0 = Inr s'
              \<and> ((vx (charPos s') - vx (charPos s0))\<^sup>2
                    + (vz (charPos s') - vz (charPos s0))\<^sup>2 = 0
                 \<or> (vx (charPos s') - vx (charPos s0))\<^sup>2
                    + (vz (charPos s') - vz (charPos s0))\<^sup>2
                      = ((if k_shift k then WALK_runSpeed else WALK_speed) * dt)\<^sup>2)
              \<and> (\<forall>j < length (vehicles s0). \<exists>n :: nat.
                     v_speed (vehicles s' ! j)
                       = v_speed (vehicles s0 ! j) * (- COLLISION_BOUNCE) ^ n)"
      by (rule exI [of _ s'], intro conjI) (rule s'(1) d e)+
  qed
  show ?hud
    using syncToReact_walking_speed by blast
qed


theorem speed_bounds_with_bounce_witness:
  "activeVehicle (inVehicle farTrack 0 (Vector3 12 0 14.75) 0 90)
     = Some (0, carRed\<lparr>v_pos := Vector3 12 0 14.75, v_rot := 0, v_speed := 90\<rparr>)
   \<and> modeRef (inVehicle farTrack 0 (Vector3 12 0 14.75) 0 90) = driving
   \<and> \<not> interactPressed (inVehicle farTrack 0 (Vector3 12 0 14.75) 0 90)
   \<and> \<not> r_finished (race (inVehicle farTrack 0 (Vector3 12 0 14.75) 0 90))
   \<and> \<not> isOnTrack farTrack (Vector3 12 0 14.75)
   \<and> (\<exists>s'. simulate farTrack 0.05 fwdKeys noMouse {} [] 0
                (inVehicle farTrack 0 (Vector3 12 0 14.75) 0 90) = Inr s'
          \<and> - 0.6 * 65 \<le> v_speed (vehicles s' ! 0) \<and> v_speed (vehicles s' ! 0) \<le> 65)"
proof -
  define s where "s = inVehicle farTrack 0 (Vector3 12 0 14.75) 0 90"
  define v where "v = carRed\<lparr>v_pos := Vector3 12 0 14.75, v_rot := 0, v_speed := 90\<rparr>"
  have av: "activeVehicle s = Some (0, v)" unfolding s_def v_def by (rule session_0)
  have s0: "modeRef s = driving" "\<not> interactPressed s" "\<not> r_finished (race s)"
    "boostMeter s = 100"
    unfolding s_def by (simp_all add: session_0)
  have off: "\<not> isOnTrack farTrack (Vector3 (vx (v_pos v)) 0 (vz (v_pos v)))"
    unfolding v_def using offRoad_example by simp
  have k: "\<not> k_shift fwdKeys" by (simp add: fwdKeys_def noKeys_def)
  note t = speed_bounds_with_bounce [OF av, where tp = farTrack and k = fwdKeys
      and dt = "0.05" and now = 0 and mouse = noMouse and taken = "{}" and rps = "[]",
      THEN conjunct1, rule_format]
  have "\<exists>s'. simulate farTrack 0.05 fwdKeys noMouse {} [] 0 s = Inr s'
          \<and> - 0.6 * 65 \<le> v_speed (vehicles s' ! 0) \<and> v_speed (vehicles s' ! 0) \<le> 65"
    using t s0 off k by auto
  then show ?thesis
    unfolding s_def [symmetric] v_def [symmetric] using av s0 offRoad_example by simp
qed


end
